theory Spec2Isabelle
  imports Main "HOL-Library.Word"
begin

unbundle bit_operations_syntax

section \<open>Guest-physical memory slots (target/arm/hvf.c, lines 71--453)\<close>

text \<open>
  Guest-physical addresses, sizes and host pointers are 64-bit machine words
  (\<open>uint64_t\<close>, \<open>uint8_t*\<close>, \<open>uintptr_t\<close> on a 64-bit host); \<open>+\<close> wraps as in C.
\<close>

type_synonym u64 = "64 word"
type_synonym hostptr = "64 word"

text \<open>\<open>struct hvf_slot\<close>; the field \<open>size\<close> is named \<open>slot_size\<close> here.\<close>

record hvf_slot =
  slot_start :: u64
  slot_size :: u64
  slot_mem :: hostptr
  slot_id :: nat

text \<open>\<open>struct mac_slot\<close>: what the hardware layer currently has mapped.\<close>

record mac_slot =
  mac_present :: bool
  mac_size :: u64
  mac_gpa_start :: u64
  mac_gva :: u64
  mac_hva :: hostptr

text \<open>
  The calls into Hypervisor.framework that the slot manager issues. The framework is
  outside the program: every call is appended to a log, and its status comes from an
  oracle that sees the log so far and the call (\<open>True\<close> is \<open>HV_SUCCESS\<close>).
\<close>

datatype hv_call =
    HV_VM_MAP hostptr u64 u64 u64
  | HV_VM_UNMAP u64 u64
  | HV_VM_PROTECT u64 u64 u64

type_synonym hv_oracle = "hv_call list \<Rightarrow> hv_call \<Rightarrow> bool"

text \<open>
  The ways the slot manager terminates the process (\<open>qemu_abort\<close>, \<open>assert_hvf_ok\<close>).
  A fatal result carries the tables as they are when the process stops.
\<close>

datatype fatal =
    MapPartialOverlap
  | NoFreeSlots
  | UnmapPartialOverlap
  | HvfFatalError
  | ResetFailed
  | RegisterFailed

definition HVF_MAX_SLOTS :: nat where
  "HVF_MAX_SLOTS = 512"

definition HV_SUCCESS :: int where
  "HV_SUCCESS = 0"

text \<open>
  The process-wide tables: \<open>hvf_state->slots\<close>, \<open>hvf_state->num_slots\<close>, the array
  \<open>mac_slots\<close>, and the log of hardware calls. Arrays are functions of the index; a
  pointer to a slot is its index.
\<close>

record hvf_mem =
  slots :: "nat \<Rightarrow> hvf_slot"
  num_slots :: nat
  mac_slots :: "nat \<Rightarrow> mac_slot"
  hv_calls :: "hv_call list"

text \<open>The table as \<open>hvf_accel_init\<close> leaves it; \<open>g_malloc0\<close> and static storage are zeroed.\<close>

definition hvf_accel_init :: hvf_mem where
  "hvf_accel_init =
     \<lparr> slots = (\<lambda>x. \<lparr> slot_start = 0, slot_size = 0, slot_mem = 0, slot_id = x \<rparr>),
       num_slots = HVF_MAX_SLOTS,
       mac_slots = (\<lambda>x. \<lparr> mac_present = False, mac_size = 0, mac_gpa_start = 0,
                            mac_gva = 0, mac_hva = 0 \<rparr>),
       hv_calls = [] \<rparr>"

text \<open>The test in the loop of \<open>hvf_find_overlap_slot\<close>, in 64-bit arithmetic.\<close>

definition slot_overlaps :: "hvf_slot \<Rightarrow> u64 \<Rightarrow> u64 \<Rightarrow> bool" where
  "slot_overlaps slot start end \<longleftrightarrow>
     slot_size slot \<noteq> 0 \<and> start < slot_start slot + slot_size slot \<and> end > slot_start slot"

definition hvf_find_overlap_slot :: "hvf_mem \<Rightarrow> u64 \<Rightarrow> u64 \<Rightarrow> nat option" where
  "hvf_find_overlap_slot s start end =
     List.find (\<lambda>x. slot_overlaps (slots s x) start end) [0..<num_slots s]"

text \<open>
  \<open>hvf_next_free_slot\<close> returns the first slot of size 0; when there is none it returns
  the last slot it looked at, and the null pointer only for an empty table.
\<close>

definition hvf_next_free_slot :: "hvf_mem \<Rightarrow> nat option" where
  "hvf_next_free_slot s =
     (case List.find (\<lambda>x. slot_size (slots s x) = 0) [0..<num_slots s] of
        Some x \<Rightarrow> Some x
      | None \<Rightarrow> if num_slots s = 0 then None else Some (num_slots s - 1))"

text \<open>\<open>assert_hvf_ok\<close> after a hardware call: log the call, abort unless it succeeded.\<close>

definition hv_checked :: "hv_oracle \<Rightarrow> hv_call \<Rightarrow> hvf_mem \<Rightarrow> (fatal \<times> hvf_mem) + hvf_mem" where
  "hv_checked hv c s =
     (let s' = s\<lparr> hv_calls := hv_calls s @ [c] \<rparr>
      in if hv (hv_calls s) c then Inr s' else Inl (HvfFatalError, s'))"

text \<open>
  \<open>__hvf_set_memory_with_flags_locked(slot, flags)\<close>: the slot is given by its index
  \<open>m\<close>; the mirror entry is \<open>mac_slots[slot->slot_id]\<close>. The function returns 0 whenever
  it returns.
\<close>

definition hvf_set_memory_with_flags_locked ::
    "hv_oracle \<Rightarrow> hvf_mem \<Rightarrow> nat \<Rightarrow> u64 \<Rightarrow> (fatal \<times> hvf_mem) + (int \<times> hvf_mem)" where
  "hvf_set_memory_with_flags_locked hv s m flags =
     (let slot = slots s m;
          k = slot_id slot;
          macslot = mac_slots s k;
          r1 = (if mac_present macslot \<and> mac_size macslot \<noteq> slot_size slot
                then hv_checked hv (HV_VM_UNMAP (mac_gpa_start macslot) (mac_size macslot))
                       (s\<lparr> mac_slots := (mac_slots s)(k := macslot\<lparr> mac_present := False \<rparr>) \<rparr>)
                else Inr s)
      in case r1 of
           Inl e \<Rightarrow> Inl e
         | Inr s1 \<Rightarrow>
             if slot_size slot = 0 then Inr (0, s1)
             else
               (case hv_checked hv (HV_VM_MAP (slot_mem slot) (slot_start slot) (slot_size slot) flags)
                       (s1\<lparr> mac_slots := (mac_slots s1)(k := (mac_slots s1 k)
                              \<lparr> mac_present := True, mac_size := slot_size slot,
                                mac_gpa_start := slot_start slot, mac_hva := slot_mem slot \<rparr>) \<rparr>) of
                  Inl e \<Rightarrow> Inl e
                | Inr s2 \<Rightarrow> Inr (0, s2)))"

text \<open>\<open>__hvf_set_memory\<close>: the same with read, write and execute permission (flags 7).\<close>

definition HV_MEMORY_RWX :: u64 where
  "HV_MEMORY_RWX = 7"

definition hvf_set_memory :: "hv_oracle \<Rightarrow> hvf_mem \<Rightarrow> nat \<Rightarrow> (fatal \<times> hvf_mem) + (int \<times> hvf_mem)" where
  "hvf_set_memory hv s m = hvf_set_memory_with_flags_locked hv s m HV_MEMORY_RWX"

text \<open>
  The second half of \<open>hvf_map_safe\<close> (lines 281--294): claim a slot, fill it in and
  commit it to the hardware layer.
\<close>

definition hvf_map_safe_claim ::
    "hv_oracle \<Rightarrow> hvf_mem \<Rightarrow> hostptr \<Rightarrow> u64 \<Rightarrow> u64 \<Rightarrow> u64 \<Rightarrow> (fatal \<times> hvf_mem) + (int \<times> hvf_mem)" where
  "hvf_map_safe_claim hv s hva gpa sz flags =
     (case hvf_next_free_slot s of
        None \<Rightarrow> Inl (NoFreeSlots, s)
      | Some m \<Rightarrow>
          if slot_size (slots s m) \<noteq> 0 then Inl (NoFreeSlots, s)
          else hvf_set_memory_with_flags_locked hv
                 (s\<lparr> slots := (slots s)(m := (slots s m)
                        \<lparr> slot_mem := hva, slot_start := gpa, slot_size := sz \<rparr>) \<rparr>) m flags)"

text \<open>\<open>hvf_map_safe(hva, gpa, size, flags)\<close>.\<close>

definition hvf_map_safe ::
    "hv_oracle \<Rightarrow> hvf_mem \<Rightarrow> hostptr \<Rightarrow> u64 \<Rightarrow> u64 \<Rightarrow> u64 \<Rightarrow> (fatal \<times> hvf_mem) + (int \<times> hvf_mem)" where
  "hvf_map_safe hv s hva gpa sz flags =
     (case hvf_find_overlap_slot s gpa (gpa + sz) of
        None \<Rightarrow> hvf_map_safe_claim hv s hva gpa sz flags
      | Some m \<Rightarrow>
          if slot_mem (slots s m) = hva \<and> slot_start (slots s m) = gpa \<and> slot_size (slots s m) = sz
          then Inr (HV_SUCCESS, s)
          else if slot_start (slots s m) = gpa \<and> slot_size (slots s m) = sz
          then
            (case hvf_set_memory_with_flags_locked hv
                    (s\<lparr> slots := (slots s)(m := (slots s m)\<lparr> slot_size := 0 \<rparr>) \<rparr>) m 0 of
               Inl e \<Rightarrow> Inl e
             | Inr (r, s1) \<Rightarrow> hvf_map_safe_claim hv s1 hva gpa sz flags)
          else Inl (MapPartialOverlap, s))"

text \<open>\<open>hvf_unmap_safe(gpa, size)\<close>.\<close>

definition hvf_unmap_safe :: "hv_oracle \<Rightarrow> hvf_mem \<Rightarrow> u64 \<Rightarrow> u64 \<Rightarrow> (fatal \<times> hvf_mem) + (int \<times> hvf_mem)" where
  "hvf_unmap_safe hv s gpa sz =
     (case hvf_find_overlap_slot s gpa (gpa + sz) of
        None \<Rightarrow> Inr (0, s)
      | Some m \<Rightarrow>
          if slot_start (slots s m) \<noteq> gpa \<or> slot_size (slots s m) \<noteq> sz
          then Inl (UnmapPartialOverlap, s)
          else hvf_set_memory_with_flags_locked hv
                 (s\<lparr> slots := (slots s)(m := (slots s m)\<lparr> slot_size := 0 \<rparr>) \<rparr>) m 0)"

text \<open>
  A \<open>MemoryRegionSection\<close> as \<open>hvf_set_phys_mem\<close> reads it: whether its region is RAM,
  whether it is user backed, its guest-physical offset, its size (\<open>int128_get64\<close>), and
  the host address \<open>memory_region_get_ram_ptr(area) + offset_within_region\<close>.
\<close>

record memory_region_section =
  is_ram :: bool
  is_user_backed :: bool
  offset_within_address_space :: u64
  section_size :: u64
  ram_ptr :: hostptr

text \<open>
  \<open>hvf_set_phys_mem(section, add)\<close>. \<open>__hvf_set_memory\<close> returns 0 or aborts, so the two
  checks of its result never fire; the test \<open>if (!mem)\<close> after \<open>hvf_next_free_slot\<close>
  only fires for an empty table.
\<close>

definition hvf_set_phys_mem :: "hv_oracle \<Rightarrow> hvf_mem \<Rightarrow> memory_region_section \<Rightarrow> bool \<Rightarrow> (fatal \<times> hvf_mem) + hvf_mem" where
  "hvf_set_phys_mem hv s sec add =
     (if \<not> is_ram sec then Inr s
      else if is_user_backed sec then Inr s
      else
        let gpa = offset_within_address_space sec;
            sz = section_size sec;
            mem = hvf_find_overlap_slot s gpa (gpa + sz)
        in
          if (case mem of None \<Rightarrow> False
              | Some m \<Rightarrow> add \<and> slot_size (slots s m) = sz \<and> slot_start (slots s m) = gpa
                           \<and> slot_mem (slots s m) = ram_ptr sec)
          then Inr s
          else
            (case (case mem of
                     None \<Rightarrow> Inr s
                   | Some m \<Rightarrow>
                       (case hvf_set_memory hv
                               (s\<lparr> slots := (slots s)(m := (slots s m)\<lparr> slot_size := 0 \<rparr>) \<rparr>) m of
                          Inl e \<Rightarrow> Inl e
                        | Inr (r, s1) \<Rightarrow> if r \<noteq> 0 then Inl (ResetFailed, s1) else Inr s1)) of
               Inl e \<Rightarrow> Inl e
             | Inr s1 \<Rightarrow>
                 if \<not> add then Inr s1
                 else
                   (case hvf_next_free_slot s1 of
                      None \<Rightarrow> Inl (NoFreeSlots, s1)
                    | Some m \<Rightarrow>
                        (case hvf_set_memory hv
                                (s1\<lparr> slots := (slots s1)(m := (slots s1 m)
                                       \<lparr> slot_size := sz, slot_mem := ram_ptr sec, slot_start := gpa \<rparr>) \<rparr>) m of
                           Inl e \<Rightarrow> Inl e
                         | Inr (r, s2) \<Rightarrow> if r \<noteq> 0 then Inl (RegisterFailed, s2) else Inr s2))))"

text \<open>\<open>hvf_gpa2hva(gpa, &found)\<close>: \<open>None\<close> is \<open>found = false\<close>.\<close>

definition hvf_gpa2hva :: "hvf_mem \<Rightarrow> u64 \<Rightarrow> hostptr option" where
  "hvf_gpa2hva s gpa =
     (case List.find (\<lambda>i. mac_present (mac_slots s i) \<and> gpa \<ge> mac_gpa_start (mac_slots s i)
                            \<and> gpa < mac_gpa_start (mac_slots s i) + mac_size (mac_slots s i))
             [0..<HVF_MAX_SLOTS] of
        None \<Rightarrow> None
      | Some i \<Rightarrow> Some (mac_hva (mac_slots s i) + (gpa - mac_gpa_start (mac_slots s i))))"

text \<open>
  The body of the loop of \<open>hvf_hva2gpa\<close> for one present mirror slot: the fragment
  \<open>(gpa, size)\<close> it reports, if any, in the order of the three cases of the source.
  The arithmetic is that of \<open>uintptr_t\<close> and \<open>uint64_t\<close>; \<open>min\<close> is the macro.
\<close>

definition hva2gpa_fragment :: "mac_slot \<Rightarrow> hostptr \<Rightarrow> u64 \<Rightarrow> (u64 \<times> u64) option" where
  "hva2gpa_fragment mslot hva len =
     (let hva_start_num = mac_hva mslot;
          hva_num = hva
      in if hva_num \<ge> hva_start_num \<and> hva_num < hva_start_num + mac_size mslot
         then Some (mac_gpa_start mslot + (hva_num - hva_start_num),
                    (if len < mac_size mslot - (hva_num - hva_start_num) then len
                     else mac_size mslot - (hva_num - hva_start_num)))
         else if hva_num + len \<le> hva_start_num + mac_size mslot \<and> hva_num + len > hva_start_num
         then Some (mac_gpa_start mslot, hva_num + len - hva_start_num)
         else if hva_num + len > hva_start_num + mac_size mslot \<and> hva_num < hva_start_num
         then Some (mac_gpa_start mslot, mac_size mslot)
         else None)"

text \<open>
  One turn of the loop: the running \<open>count\<close> and the two output arrays. A fragment is
  stored only while \<open>count < array_size\<close>; it is counted in any case.
\<close>

definition hva2gpa_step ::
    "hvf_mem \<Rightarrow> hostptr \<Rightarrow> u64 \<Rightarrow> int \<Rightarrow> nat \<Rightarrow> nat \<times> u64 list \<times> u64 list \<Rightarrow> nat \<times> u64 list \<times> u64 list" where
  "hva2gpa_step s hva len array_size i acc =
     (case acc of (count, gpa, sz) \<Rightarrow>
        if \<not> mac_present (mac_slots s i) then acc
        else
          (case hva2gpa_fragment (mac_slots s i) hva len of
             None \<Rightarrow> acc
           | Some (g, z) \<Rightarrow>
               if int count < array_size then (count + 1, gpa[count := g], sz[count := z])
               else (count + 1, gpa, sz)))"

text \<open>
  \<open>hvf_hva2gpa(hva, length, array_size, gpa, size)\<close>: the result is the returned count
  with the two output arrays, which the caller provides with \<open>array_size\<close> entries.
\<close>

definition hvf_hva2gpa ::
    "hvf_mem \<Rightarrow> hostptr \<Rightarrow> u64 \<Rightarrow> int \<Rightarrow> u64 list \<Rightarrow> u64 list \<Rightarrow> nat \<times> u64 list \<times> u64 list" where
  "hvf_hva2gpa s hva len array_size gpa sz =
     fold (hva2gpa_step s hva len array_size) [0..<HVF_MAX_SLOTS] (0, gpa, sz)"

section \<open>Sequences of operations on the slot table\<close>

text \<open>
  The entry points that change the slot table: \<open>hvf_map_safe\<close> and \<open>hvf_unmap_safe\<close>
  (reached through \<open>hvf_user_backed_ram_map\<close> and \<open>hvf_user_backed_ram_unmap\<close>), and
  the memory listener's \<open>hvf_region_add\<close> and \<open>hvf_region_del\<close>, which call
  \<open>hvf_set_phys_mem\<close> with \<open>add\<close> true and false. A run stops at the first fatal
  result.
\<close>

datatype mem_op =
    Map hostptr u64 u64 u64
  | Unmap u64 u64
  | RegionAdd memory_region_section
  | RegionDel memory_region_section

fun apply_op :: "hv_oracle \<Rightarrow> hvf_mem \<Rightarrow> mem_op \<Rightarrow> (fatal \<times> hvf_mem) + hvf_mem" where
  "apply_op hv s (Map hva gpa sz flags) = map_sum id snd (hvf_map_safe hv s hva gpa sz flags)"
| "apply_op hv s (Unmap gpa sz) = map_sum id snd (hvf_unmap_safe hv s gpa sz)"
| "apply_op hv s (RegionAdd sec) = hvf_set_phys_mem hv s sec True"
| "apply_op hv s (RegionDel sec) = hvf_set_phys_mem hv s sec False"

fun run_ops :: "hv_oracle \<Rightarrow> hvf_mem \<Rightarrow> mem_op list \<Rightarrow> (fatal \<times> hvf_mem) + hvf_mem" where
  "run_ops hv s [] = Inr s"
| "run_ops hv s (op # ops) =
     (case apply_op hv s op of Inl e \<Rightarrow> Inl e | Inr s' \<Rightarrow> run_ops hv s' ops)"

section \<open>vCPU registers (lines 696--1183)\<close>

type_synonym u8 = "8 word"
type_synonym u32 = "32 word"
type_synonym u128 = "128 word"

text \<open>
  The register identifiers of the hardware engine. \<open>HV_REG_X i\<close> stands for the
  enumerators \<open>HV_REG_X0\<close> ... \<open>HV_REG_X30\<close>, \<open>HV_SIMD_FP_REG_Q i\<close> for
  \<open>HV_SIMD_FP_REG_Q0\<close> ... \<open>HV_SIMD_FP_REG_Q31\<close>.
\<close>

datatype hv_reg = HV_REG_X nat | HV_REG_PC | HV_REG_FPCR | HV_REG_FPSR | HV_REG_CPSR

datatype hv_simd_fp_reg = HV_SIMD_FP_REG_Q nat

datatype hv_sys_reg =
    HV_SYS_REG_SP_EL0 | HV_SYS_REG_SP_EL1 | HV_SYS_REG_ELR_EL1 | HV_SYS_REG_SPSR_EL1
  | HV_SYS_REG_APDAKEYHI_EL1 | HV_SYS_REG_APDAKEYLO_EL1
  | HV_SYS_REG_APDBKEYHI_EL1 | HV_SYS_REG_APDBKEYLO_EL1
  | HV_SYS_REG_APGAKEYHI_EL1 | HV_SYS_REG_APGAKEYLO_EL1
  | HV_SYS_REG_APIAKEYHI_EL1 | HV_SYS_REG_APIAKEYLO_EL1
  | HV_SYS_REG_APIBKEYHI_EL1 | HV_SYS_REG_APIBKEYLO_EL1
  | HV_SYS_REG_CNTKCTL_EL1 | HV_SYS_REG_CONTEXTIDR_EL1 | HV_SYS_REG_CPACR_EL1
  | HV_SYS_REG_CSSELR_EL1 | HV_SYS_REG_ESR_EL1 | HV_SYS_REG_FAR_EL1 | HV_SYS_REG_MAIR_EL1
  | HV_SYS_REG_MDSCR_EL1 | HV_SYS_REG_PAR_EL1 | HV_SYS_REG_SCTLR_EL1 | HV_SYS_REG_TCR_EL1
  | HV_SYS_REG_TPIDRRO_EL0 | HV_SYS_REG_TPIDR_EL0 | HV_SYS_REG_TPIDR_EL1
  | HV_SYS_REG_TTBR0_EL1 | HV_SYS_REG_TTBR1_EL1 | HV_SYS_REG_VBAR_EL1
  | HV_SYS_REG_CNTV_CVAL_EL0

text \<open>\<open>regno_to_hv_xreg\<close>: cases 0 to 30, and \<open>HV_REG_X30\<close> by default.\<close>

definition regno_to_hv_xreg :: "nat \<Rightarrow> hv_reg" where
  "regno_to_hv_xreg i = (if i \<le> 30 then HV_REG_X i else HV_REG_X 30)"

text \<open>
  \<open>regno_to_hv_simd_fp_reg_type\<close>: the switch returns \<open>HV_SIMD_FP_REG_Q\<close>\<open>i\<close> in case
  \<open>i\<close> for 0 to 29 and for 31; in case 30 it returns \<open>HV_SIMD_FP_REG_Q20\<close> (line 797).
  It is only called with \<open>i < 32\<close>.
\<close>

definition regno_to_hv_simd_fp_reg_type :: "nat \<Rightarrow> hv_simd_fp_reg" where
  "regno_to_hv_simd_fp_reg_type i =
     (if i = 30 then HV_SIMD_FP_REG_Q 20 else HV_SIMD_FP_REG_Q i)"

text \<open>
  The part of \<open>CPUARMState\<close> that the file reads and writes. The members of
  \<open>env->keys\<close> and of \<open>env->cp15\<close> that it touches are named by a datatype each, and
  the two structs are functions from those names to 64-bit values; \<open>xregs\<close> has 32
  entries (entry 31 holds the current stack pointer), \<open>vfp_qreg i\<close> is the 128-bit
  register behind \<open>aa64_vfp_qreg(env, i)\<close>.
\<close>

datatype pauth_key =
    apda_hi | apda_lo | apdb_hi | apdb_lo | apga_hi | apga_lo | apia_hi | apia_lo | apib_hi | apib_lo

datatype cp15_field =
    c14_cntkctl | contextidr_el1 | cpacr_el1 | csselr_el1 | esr_el1 | far_el1 | mair_el1
  | mdscr_el1 | par_el1 | sctlr_el1 | tcr_el1 | tpidrro_el0 | tpidr_el0 | tpidr_el1
  | ttbr0_el1 | ttbr1_el1 | vbar_el1

record cpu_arm_state =
  xregs :: "nat \<Rightarrow> u64"
  pc :: u64
  pstate :: u32
  sp_el :: "nat \<Rightarrow> u64"
  elr_el :: "nat \<Rightarrow> u64"
  banked_spsr :: "nat \<Rightarrow> u64"
  vfp_qreg :: "nat \<Rightarrow> u128"
  fpsr :: u32
  fpcr :: u32
  keys :: "pauth_key \<Rightarrow> u64"
  cp15 :: "cp15_field \<Rightarrow> u64"

text \<open>The per-vCPU context inside the hardware engine, behind the handle \<open>hvf_fd\<close>.\<close>

record hv_vcpu =
  hv_reg_file :: "hv_reg \<Rightarrow> u64"
  hv_sys_reg_file :: "hv_sys_reg \<Rightarrow> u64"
  hv_simd_fp_reg_file :: "hv_simd_fp_reg \<Rightarrow> u128"
  hv_pending_irq :: bool
  hv_pending_fiq :: bool

datatype hv_exit_reason =
    HV_EXIT_REASON_CANCELED | HV_EXIT_REASON_EXCEPTION | HV_EXIT_REASON_VTIMER_ACTIVATED
  | HV_EXIT_REASON_UNKNOWN

record hv_vcpu_exit =
  reason :: hv_exit_reason
  syndrome :: u64
  virtual_address :: u64
  physical_address :: u64

text \<open>
  Transactions on the memory bus (\<open>address_space_rw\<close> on \<open>address_space_memory\<close>):
  address, length and, for a write, the bytes written.
\<close>

datatype bus_txn = BusRead u64 nat | BusWrite u64 nat "u8 list"

text \<open>
  The part of \<open>CPUState\<close> the file uses, with the hardware context of the vCPU, the
  log of bus transactions, and the level of the virtual-timer interrupt line.
\<close>

record cpu_state =
  env :: cpu_arm_state
  hvf_fd :: hv_vcpu
  hvf_vcpu_exit_info :: hv_vcpu_exit
  hvf_vcpu_dirty :: bool
  hvf_irq_pending :: bool
  hvf_fiq_pending :: bool
  bus_log :: "bus_txn list"
  gt_timer_virt :: bool

text \<open>
  Modelled from the spec: the helpers of the CPU model (\<open>pstate_read\<close>, \<open>pstate_write\<close>,
  \<open>aarch64_save_sp\<close>, \<open>aarch64_restore_sp\<close>, \<open>aarch64_banked_spsr_index\<close>,
  \<open>vfp_get_fpsr\<close>, \<open>vfp_set_fpsr\<close>, \<open>vfp_get_fpcr\<close>, \<open>vfp_set_fpcr\<close>) are declared in
  headers that are not among the sources. The spec lists the processor state, the stack
  pointer per privilege level and the floating-point status and control registers as
  catalog entries that are transferred whole: the processor state and FPSR/FPCR are
  plain 32-bit fields here, and the stack-pointer helpers copy between \<open>xregs[31]\<close> and
  the bank selected by the SP bit of the processor state.
\<close>

definition PSTATE_SP :: u32 where
  "PSTATE_SP = 1"

definition PSTATE_nRW :: u64 where
  "PSTATE_nRW = 0x10"

definition pstate_read :: "cpu_arm_state \<Rightarrow> u32" where
  "pstate_read e = pstate e"

definition pstate_write :: "cpu_arm_state \<Rightarrow> u32 \<Rightarrow> cpu_arm_state" where
  "pstate_write e v = e\<lparr> pstate := v \<rparr>"

definition aarch64_save_sp :: "cpu_arm_state \<Rightarrow> nat \<Rightarrow> cpu_arm_state" where
  "aarch64_save_sp e el =
     (if pstate e AND PSTATE_SP \<noteq> 0 then e\<lparr> sp_el := (sp_el e)(el := xregs e 31) \<rparr>
      else e\<lparr> sp_el := (sp_el e)(0 := xregs e 31) \<rparr>)"

definition aarch64_restore_sp :: "cpu_arm_state \<Rightarrow> nat \<Rightarrow> cpu_arm_state" where
  "aarch64_restore_sp e el =
     (if pstate e AND PSTATE_SP \<noteq> 0 then e\<lparr> xregs := (xregs e)(31 := sp_el e el) \<rparr>
      else e\<lparr> xregs := (xregs e)(31 := sp_el e 0) \<rparr>)"

definition aarch64_banked_spsr_index :: "nat \<Rightarrow> nat" where
  "aarch64_banked_spsr_index el = el"

definition vfp_get_fpsr :: "cpu_arm_state \<Rightarrow> u32" where
  "vfp_get_fpsr e = fpsr e"

definition vfp_set_fpsr :: "cpu_arm_state \<Rightarrow> u32 \<Rightarrow> cpu_arm_state" where
  "vfp_set_fpsr e v = e\<lparr> fpsr := v \<rparr>"

definition vfp_get_fpcr :: "cpu_arm_state \<Rightarrow> u32" where
  "vfp_get_fpcr e = fpcr e"

definition vfp_set_fpcr :: "cpu_arm_state \<Rightarrow> u32 \<Rightarrow> cpu_arm_state" where
  "vfp_set_fpcr e v = e\<lparr> fpcr := v \<rparr>"

text \<open>
  The pointer-authentication keys and the system registers, in the order in which
  \<open>hvf_put_registers\<close> and \<open>hvf_get_registers\<close> go through them.
\<close>

definition key_catalog :: "(hv_sys_reg \<times> pauth_key) list" where
  "key_catalog =
     [(HV_SYS_REG_APDAKEYHI_EL1, apda_hi), (HV_SYS_REG_APDAKEYLO_EL1, apda_lo),
      (HV_SYS_REG_APDBKEYHI_EL1, apdb_hi), (HV_SYS_REG_APDBKEYLO_EL1, apdb_lo),
      (HV_SYS_REG_APGAKEYHI_EL1, apga_hi), (HV_SYS_REG_APGAKEYLO_EL1, apga_lo),
      (HV_SYS_REG_APIAKEYHI_EL1, apia_hi), (HV_SYS_REG_APIAKEYLO_EL1, apia_lo),
      (HV_SYS_REG_APIBKEYHI_EL1, apib_hi), (HV_SYS_REG_APIBKEYLO_EL1, apib_lo)]"

definition cp15_catalog :: "(hv_sys_reg \<times> cp15_field) list" where
  "cp15_catalog =
     [(HV_SYS_REG_CNTKCTL_EL1, c14_cntkctl), (HV_SYS_REG_CONTEXTIDR_EL1, contextidr_el1),
      (HV_SYS_REG_CPACR_EL1, cpacr_el1), (HV_SYS_REG_CSSELR_EL1, csselr_el1),
      (HV_SYS_REG_ESR_EL1, esr_el1), (HV_SYS_REG_FAR_EL1, far_el1),
      (HV_SYS_REG_MAIR_EL1, mair_el1), (HV_SYS_REG_MDSCR_EL1, mdscr_el1),
      (HV_SYS_REG_PAR_EL1, par_el1), (HV_SYS_REG_SCTLR_EL1, sctlr_el1),
      (HV_SYS_REG_TCR_EL1, tcr_el1), (HV_SYS_REG_TPIDRRO_EL0, tpidrro_el0),
      (HV_SYS_REG_TPIDR_EL0, tpidr_el0), (HV_SYS_REG_TPIDR_EL1, tpidr_el1),
      (HV_SYS_REG_TTBR0_EL1, ttbr0_el1), (HV_SYS_REG_TTBR1_EL1, ttbr1_el1),
      (HV_SYS_REG_VBAR_EL1, vbar_el1)]"

text \<open>
  \<open>hvf_put_registers\<close> (emulator to hardware). The calls to the engine are wrapped in
  \<open>HVF_CHECKED_CALL\<close>, which only prints on failure; the engine is taken to store what
  it is given. Each loop is a fold over its index range, in order.
\<close>

definition hvf_put_registers :: "cpu_state \<Rightarrow> cpu_state" where
  "hvf_put_registers cpu =
     (let hw = hvf_fd cpu;
          e0 = env cpu;
          regs1 = fold (\<lambda>i r. r(regno_to_hv_xreg i := xregs e0 i)) [0..<31] (hv_reg_file hw);
          e1 = aarch64_save_sp e0 1;
          sys1 = (hv_sys_reg_file hw)(HV_SYS_REG_SP_EL0 := sp_el e1 0, HV_SYS_REG_SP_EL1 := sp_el e1 1);
          regs2 = regs1(HV_REG_CPSR := ucast (pstate_read e1));
          regs3 = regs2(HV_REG_PC := pc e1);
          sys2 = sys1(HV_SYS_REG_ELR_EL1 := elr_el e1 1);
          sys3 = sys2(HV_SYS_REG_SPSR_EL1 := banked_spsr e1 (aarch64_banked_spsr_index 1));
          simd1 = fold (\<lambda>i q. q(regno_to_hv_simd_fp_reg_type i := vfp_qreg e1 i)) [0..<32]
                    (hv_simd_fp_reg_file hw);
          regs4 = regs3(HV_REG_FPSR := ucast (vfp_get_fpsr e1), HV_REG_FPCR := ucast (vfp_get_fpcr e1));
          sys4 = fold (\<lambda>(r, k) h. h(r := keys e1 k)) key_catalog sys3;
          sys5 = fold (\<lambda>(r, f) h. h(r := cp15 e1 f)) cp15_catalog sys4
      in cpu\<lparr> env := e1,
               hvf_fd := hw\<lparr> hv_reg_file := regs4, hv_sys_reg_file := sys5,
                             hv_simd_fp_reg_file := simd1 \<rparr> \<rparr>)"

text \<open>The ways the exit handling terminates the process (\<open>abort()\<close>).\<close>

datatype cpu_abort =
    AbortAarch32 | AbortDabtInvalid | AbortExtAbt | AbortS1PTW | AbortCp | AbortSmc
  | AbortSysReg | AbortAccessFault | AbortPrefetchIO | AbortCacheMaint | AbortUserMem
  | AbortDebug | AbortUnknownEC | AbortUnhandledExit

text \<open>
  \<open>hvf_get_registers\<close> (hardware to emulator); it aborts when the processor state read
  from the engine has the AArch32 bit set. FPSR and FPCR are read into a 32-bit variable.
\<close>

definition hvf_get_registers :: "cpu_state \<Rightarrow> cpu_abort + cpu_state" where
  "hvf_get_registers cpu =
     (let hw = hvf_fd cpu;
          regs = hv_reg_file hw;
          sys = hv_sys_reg_file hw;
          e0 = env cpu;
          e1 = e0\<lparr> xregs := fold (\<lambda>i x. x(i := regs (regno_to_hv_xreg i))) [0..<31] (xregs e0) \<rparr>;
          e2 = e1\<lparr> sp_el := (sp_el e1)(0 := sys HV_SYS_REG_SP_EL0, 1 := sys HV_SYS_REG_SP_EL1) \<rparr>;
          val = regs HV_REG_CPSR
      in if val AND PSTATE_nRW \<noteq> 0 then Inl AbortAarch32
         else
           let e3 = pstate_write e2 (ucast val);
               e4 = aarch64_restore_sp e3 1;
               e5 = e4\<lparr> pc := regs HV_REG_PC \<rparr>;
               e6 = e5\<lparr> elr_el := (elr_el e5)(1 := sys HV_SYS_REG_ELR_EL1) \<rparr>;
               e7 = e6\<lparr> banked_spsr := (banked_spsr e6)
                           (aarch64_banked_spsr_index 1 := sys HV_SYS_REG_SPSR_EL1) \<rparr>;
               e8 = e7\<lparr> vfp_qreg := fold (\<lambda>i v. v(i := hv_simd_fp_reg_file hw
                                                   (regno_to_hv_simd_fp_reg_type i)))
                                         [0..<32] (vfp_qreg e7) \<rparr>;
               e9 = vfp_set_fpcr (vfp_set_fpsr e8 (ucast (regs HV_REG_FPSR))) (ucast (regs HV_REG_FPCR));
               e10 = e9\<lparr> keys := fold (\<lambda>(r, k) m. m(k := sys r)) key_catalog (keys e9) \<rparr>;
               e11 = e10\<lparr> cp15 := fold (\<lambda>(r, f) m. m(f := sys r)) cp15_catalog (cp15 e10) \<rparr>
           in Inr (cpu\<lparr> env := e11 \<rparr>))"

section \<open>Exit handling (lines 1466--1971)\<close>

text \<open>
  Modelled from the spec: the macros of \<open>esr.h\<close> are not among the sources. The spec
  names what is decoded from the syndrome (exception class, valid flag, access width,
  sign-extension flag, direction, target register, fault status); the positions below
  are those of the Arm ESR_ELx encoding that these macro names denote.
\<close>

definition ESR_ELx_EC :: "u32 \<Rightarrow> u32" where
  "ESR_ELx_EC esr = drop_bit 26 (esr AND 0xFC000000)"

definition ESR_ELx_ISV :: u32 where "ESR_ELx_ISV = 0x1000000"
definition ESR_ELx_SAS_SHIFT :: nat where "ESR_ELx_SAS_SHIFT = 22"
definition ESR_ELx_SAS :: u32 where "ESR_ELx_SAS = 0xC00000"
definition ESR_ELx_SSE :: u32 where "ESR_ELx_SSE = 0x200000"
definition ESR_ELx_SRT_SHIFT :: nat where "ESR_ELx_SRT_SHIFT = 16"
definition ESR_ELx_SRT_MASK :: u32 where "ESR_ELx_SRT_MASK = 0x1F0000"
definition ESR_ELx_EA :: u32 where "ESR_ELx_EA = 0x200"
definition ESR_ELx_CM :: u32 where "ESR_ELx_CM = 0x100"
definition ESR_ELx_S1PTW :: u32 where "ESR_ELx_S1PTW = 0x80"
definition ESR_ELx_WNR :: u32 where "ESR_ELx_WNR = 0x40"
definition ESR_ELx_FSC_TYPE :: u32 where "ESR_ELx_FSC_TYPE = 0x3C"
definition ESR_ELx_FSC_ACCESS :: u32 where "ESR_ELx_FSC_ACCESS = 0x08"

definition ESR_ELx_SYS64_ISS_DIR_MASK :: u32 where "ESR_ELx_SYS64_ISS_DIR_MASK = 0x1"
definition ESR_ELx_SYS64_ISS_DIR_WRITE :: u32 where "ESR_ELx_SYS64_ISS_DIR_WRITE = 0x0"
definition ESR_ELx_SYS64_ISS_RT_SHIFT :: nat where "ESR_ELx_SYS64_ISS_RT_SHIFT = 5"
definition ESR_ELx_SYS64_ISS_RT_MASK :: u32 where "ESR_ELx_SYS64_ISS_RT_MASK = 0x3E0"
definition ESR_ELx_SYS64_ISS_SYS_MASK :: u32 where "ESR_ELx_SYS64_ISS_SYS_MASK = 0x3FFC1E"

definition ESR_ELx_EC_WFx :: u32 where "ESR_ELx_EC_WFx = 0x01"
definition ESR_ELx_EC_CP15_32 :: u32 where "ESR_ELx_EC_CP15_32 = 0x03"
definition ESR_ELx_EC_CP15_64 :: u32 where "ESR_ELx_EC_CP15_64 = 0x04"
definition ESR_ELx_EC_CP14_MR :: u32 where "ESR_ELx_EC_CP14_MR = 0x05"
definition ESR_ELx_EC_CP14_LS :: u32 where "ESR_ELx_EC_CP14_LS = 0x06"
definition ESR_ELx_EC_CP14_64 :: u32 where "ESR_ELx_EC_CP14_64 = 0x0C"
definition ESR_ELx_EC_HVC32 :: u32 where "ESR_ELx_EC_HVC32 = 0x12"
definition ESR_ELx_EC_SMC32 :: u32 where "ESR_ELx_EC_SMC32 = 0x13"
definition ESR_ELx_EC_HVC64 :: u32 where "ESR_ELx_EC_HVC64 = 0x16"
definition ESR_ELx_EC_SMC64 :: u32 where "ESR_ELx_EC_SMC64 = 0x17"
definition ESR_ELx_EC_SYS64 :: u32 where "ESR_ELx_EC_SYS64 = 0x18"
definition ESR_ELx_EC_IABT_LOW :: u32 where "ESR_ELx_EC_IABT_LOW = 0x20"
definition ESR_ELx_EC_DABT_LOW :: u32 where "ESR_ELx_EC_DABT_LOW = 0x24"
definition ESR_ELx_EC_BREAKPT_LOW :: u32 where "ESR_ELx_EC_BREAKPT_LOW = 0x30"
definition ESR_ELx_EC_SOFTSTP_LOW :: u32 where "ESR_ELx_EC_SOFTSTP_LOW = 0x32"
definition ESR_ELx_EC_WATCHPT_LOW :: u32 where "ESR_ELx_EC_WATCHPT_LOW = 0x34"
definition ESR_ELx_EC_BKPT32 :: u32 where "ESR_ELx_EC_BKPT32 = 0x38"
definition ESR_ELx_EC_BRK64 :: u32 where "ESR_ELx_EC_BRK64 = 0x3C"

definition hvf_skip_instr :: "cpu_state \<Rightarrow> cpu_state" where
  "hvf_skip_instr cpu = cpu\<lparr> env := (env cpu)\<lparr> pc := pc (env cpu) + 4 \<rparr> \<rparr>"

definition hvf_read_rt :: "cpu_state \<Rightarrow> nat \<Rightarrow> u64" where
  "hvf_read_rt cpu rt = (if rt = 31 then 0 else xregs (env cpu) rt)"

definition hvf_write_rt :: "cpu_state \<Rightarrow> nat \<Rightarrow> u64 \<Rightarrow> cpu_state" where
  "hvf_write_rt cpu rt val =
     (if rt \<noteq> 31 then cpu\<lparr> env := (env cpu)\<lparr> xregs := (xregs (env cpu))(rt := val) \<rparr> \<rparr>
      else cpu)"

text \<open>
  \<open>hvf_handle_wfx\<close> reads the virtual-timer compare value and the counter and may
  sleep; it changes nothing of the state modelled here.
\<close>

definition hvf_handle_wfx :: "cpu_state \<Rightarrow> cpu_state" where
  "hvf_handle_wfx cpu = cpu"

text \<open>
  \<open>hvf_handle_hvc\<close>. The PSCI emulation (\<open>arm_is_psci_call\<close>, \<open>arm_handle_psci_call\<close>) is
  outside the file and is passed in as a pair of functions on the emulator state.
\<close>

type_synonym psci = "(cpu_arm_state \<Rightarrow> bool) \<times> (cpu_arm_state \<Rightarrow> cpu_arm_state)"

definition hvf_handle_hvc :: "psci \<Rightarrow> cpu_state \<Rightarrow> cpu_state" where
  "hvf_handle_hvc ps cpu =
     (if fst ps (env cpu) then cpu\<lparr> env := snd ps (env cpu) \<rparr>
      else cpu\<lparr> env := (env cpu)\<lparr> xregs := (xregs (env cpu))(0 := - 1) \<rparr> \<rparr>)"

definition hvf_vcpu_get_hsr :: "cpu_state \<Rightarrow> u32" where
  "hvf_vcpu_get_hsr cpu = ucast (syndrome (hvf_vcpu_exit_info cpu))"

definition hvf_handle_sys_reg :: "cpu_state \<Rightarrow> cpu_abort + cpu_state" where
  "hvf_handle_sys_reg cpu =
     (let esr = hvf_vcpu_get_hsr cpu;
          is_write = (esr AND ESR_ELx_SYS64_ISS_DIR_MASK = ESR_ELx_SYS64_ISS_DIR_WRITE);
          rt = unat (drop_bit ESR_ELx_SYS64_ISS_RT_SHIFT (esr AND ESR_ELx_SYS64_ISS_RT_MASK));
          sys = esr AND ESR_ELx_SYS64_ISS_SYS_MASK
      in if sys = 0x280406 \<or> sys = 0x280400
         then Inr (hvf_skip_instr (if \<not> is_write then hvf_write_rt cpu rt 0 else cpu))
         else Inl AbortSysReg)"

definition hvf_vcpu_dabt_get_as :: "cpu_state \<Rightarrow> nat" where
  "hvf_vcpu_dabt_get_as cpu =
     2 ^ unat (drop_bit ESR_ELx_SAS_SHIFT (hvf_vcpu_get_hsr cpu AND ESR_ELx_SAS))"

definition hvf_vcpu_dabt_get_rd :: "cpu_state \<Rightarrow> nat" where
  "hvf_vcpu_dabt_get_rd cpu =
     unat (drop_bit ESR_ELx_SRT_SHIFT (hvf_vcpu_get_hsr cpu AND ESR_ELx_SRT_MASK))"

text \<open>
  \<open>hvf_decode_hsr\<close>: the out-parameters \<open>is_write\<close>, \<open>len\<close>, \<open>sign_extend\<close>, \<open>rt\<close>
  are returned with the state, whose program counter has been advanced. The access size
  is \<open>1 << SAS\<close> and so never negative.
\<close>

definition hvf_decode_hsr :: "cpu_state \<Rightarrow> cpu_abort + (bool \<times> nat \<times> bool \<times> nat \<times> cpu_state)" where
  "hvf_decode_hsr cpu =
     (let esr = hvf_vcpu_get_hsr cpu
      in if ESR_ELx_EA AND esr \<noteq> 0 then Inl AbortExtAbt
         else if ESR_ELx_S1PTW AND esr \<noteq> 0 then Inl AbortS1PTW
         else Inr (esr AND ESR_ELx_WNR \<noteq> 0, hvf_vcpu_dabt_get_as cpu,
                   esr AND ESR_ELx_SSE \<noteq> 0, hvf_vcpu_dabt_get_rd cpu, hvf_skip_instr cpu))"

text \<open>Memory images of integers on the little-endian host.\<close>

fun le_word :: "u8 list \<Rightarrow> u64" where
  "le_word [] = 0"
| "le_word (b # bs) = ucast b OR push_bit 8 (le_word bs)"

definition le_bytes :: "u64 \<Rightarrow> u8 list" where
  "le_bytes w = map (\<lambda>i. ucast (drop_bit (8 * i) w)) [0..<8]"

text \<open>Writing bytes over the front of a buffer; the buffer keeps its length.\<close>

fun overlay :: "'a list \<Rightarrow> 'a list \<Rightarrow> 'a list" where
  "overlay (b # bs) (x # xs) = b # overlay bs xs"
| "overlay bs xs = xs"

text \<open>
  The device behind a bus read is outside the file: given the transactions so far, an
  address and a length it yields the bytes returned.
\<close>

type_synonym bus = "bus_txn list \<Rightarrow> u64 \<Rightarrow> nat \<Rightarrow> u8 list"

text \<open>
  \<open>hvf_handle_mmio\<close>. The local array \<open>data_buf[8]\<close> is not initialised: its content
  before the read is the parameter \<open>data_buf\<close> (8 bytes). The read stores \<open>len\<close> bytes
  at its front, and \<open>memcpy(&val, data_buf, 8)\<close> takes all 8. In the read path only
  case 1 assigns to \<open>val\<close>; cases 2 and 4 assign to the unused local \<open>data\<close>; the flag
  \<open>sign_extend\<close> is not used.
\<close>

definition hvf_handle_mmio :: "bus \<Rightarrow> u8 list \<Rightarrow> cpu_state \<Rightarrow> cpu_abort + cpu_state" where
  "hvf_handle_mmio bus data_buf cpu =
     (let gpa = physical_address (hvf_vcpu_exit_info cpu);
          esr = hvf_vcpu_get_hsr cpu
      in if esr AND ESR_ELx_ISV = 0 then Inl AbortDabtInvalid
         else
           (case hvf_decode_hsr cpu of
              Inl e \<Rightarrow> Inl e
            | Inr (is_write, len, sign_extend, rt, cpu1) \<Rightarrow>
                if is_write then
                  let guest_reg_val = hvf_read_rt cpu1 rt;
                      data = (if len = 1 then guest_reg_val AND 0xff
                              else if len = 2 then guest_reg_val AND 0xffff
                              else if len = 4 then guest_reg_val AND 0xffffffff
                              else guest_reg_val)
                  in Inr (cpu1\<lparr> bus_log := bus_log cpu1 @ [BusWrite gpa len (take len (le_bytes data))] \<rparr>)
                else
                  let buf = overlay (take len (bus (bus_log cpu1) gpa len)) data_buf;
                      cpu2 = cpu1\<lparr> bus_log := bus_log cpu1 @ [BusRead gpa len] \<rparr>;
                      val = le_word buf;
                      val' = (if len = 1 then val AND 0xff else val)
                  in Inr (hvf_write_rt cpu2 rt val')))"

text \<open>\<open>hvf_handle_guest_abort\<close>; the slot table is only read.\<close>

definition hvf_handle_guest_abort ::
    "hvf_mem \<Rightarrow> bus \<Rightarrow> u8 list \<Rightarrow> cpu_state \<Rightarrow> u32 \<Rightarrow> cpu_abort + cpu_state" where
  "hvf_handle_guest_abort mem bus data_buf cpu ec =
     (let gpa = physical_address (hvf_vcpu_exit_info cpu);
          slot = hvf_find_overlap_slot mem gpa (gpa + 1);
          esr = hvf_vcpu_get_hsr cpu;
          fault_status = esr AND ESR_ELx_FSC_TYPE;
          is_iabt = (ESR_ELx_EC_IABT_LOW = ec);
          is_cm = (esr AND ESR_ELx_CM \<noteq> 0)
      in if ESR_ELx_FSC_ACCESS = fault_status then Inl AbortAccessFault
         else
           (case slot of
              None \<Rightarrow>
                if is_iabt then Inl AbortPrefetchIO
                else if is_cm then Inl AbortCacheMaint
                else hvf_handle_mmio bus data_buf cpu
            | Some m \<Rightarrow> Inl AbortUserMem))"

text \<open>
  \<open>hvf_handle_exception\<close>: pull the registers, dispatch on the exception class, push
  the registers. The coprocessor, secure-monitor and debug handlers abort; an unknown
  class aborts after a pull and a push.
\<close>

definition hvf_handle_exception ::
    "hvf_mem \<Rightarrow> psci \<Rightarrow> bus \<Rightarrow> u8 list \<Rightarrow> cpu_state \<Rightarrow> cpu_abort + cpu_state" where
  "hvf_handle_exception mem ps bus data_buf cpu =
     (case hvf_get_registers cpu of
        Inl e \<Rightarrow> Inl e
      | Inr cpu1 \<Rightarrow>
          let ec = ESR_ELx_EC (ucast (syndrome (hvf_vcpu_exit_info cpu1)));
              handled =
                (if ec = ESR_ELx_EC_WFx then Inr (hvf_handle_wfx cpu1)
                 else if ec = ESR_ELx_EC_CP15_32 \<or> ec = ESR_ELx_EC_CP15_64 \<or> ec = ESR_ELx_EC_CP14_MR
                         \<or> ec = ESR_ELx_EC_CP14_LS \<or> ec = ESR_ELx_EC_CP14_64 then Inl AbortCp
                 else if ec = ESR_ELx_EC_HVC32 \<or> ec = ESR_ELx_EC_HVC64 then Inr (hvf_handle_hvc ps cpu1)
                 else if ec = ESR_ELx_EC_SMC32 \<or> ec = ESR_ELx_EC_SMC64 then Inl AbortSmc
                 else if ec = ESR_ELx_EC_SYS64 then hvf_handle_sys_reg cpu1
                 else if ec = ESR_ELx_EC_IABT_LOW \<or> ec = ESR_ELx_EC_DABT_LOW
                 then hvf_handle_guest_abort mem bus data_buf cpu1 ec
                 else if ec = ESR_ELx_EC_SOFTSTP_LOW \<or> ec = ESR_ELx_EC_WATCHPT_LOW
                         \<or> ec = ESR_ELx_EC_BREAKPT_LOW \<or> ec = ESR_ELx_EC_BKPT32
                         \<or> ec = ESR_ELx_EC_BRK64 then Inl AbortDebug
                 else Inl AbortUnknownEC)
          in case handled of
               Inl e \<Rightarrow> Inl e
             | Inr cpu2 \<Rightarrow> Inr (hvf_put_registers cpu2))"

definition hvf_inject_interrupts :: "cpu_state \<Rightarrow> cpu_state" where
  "hvf_inject_interrupts cpu =
     cpu\<lparr> hvf_fd := (hvf_fd cpu)\<lparr> hv_pending_irq := hvf_irq_pending cpu,
                                    hv_pending_fiq := hvf_fiq_pending cpu \<rparr> \<rparr>"

text \<open>
  One turn of the loop of \<open>hvf_vcpu_exec\<close>, cut at the call \<open>hv_vcpu_run\<close>. The first
  part (lines 1872--1897) ends right before the call: it pushes the registers when the
  vCPU is dirty, programs the pending interrupts, and reads 8 bytes at the program
  counter held by the engine (for a debug print).
\<close>

definition hvf_vcpu_exec_before_run :: "cpu_state \<Rightarrow> cpu_state" where
  "hvf_vcpu_exec_before_run cpu =
     (let cpu1 = (if hvf_vcpu_dirty cpu then (hvf_put_registers cpu)\<lparr> hvf_vcpu_dirty := False \<rparr>
                  else cpu);
          cpu2 = hvf_inject_interrupts cpu1
      in cpu2\<lparr> bus_log := bus_log cpu2 @ [BusRead (hv_reg_file (hvf_fd cpu2) HV_REG_PC) 8] \<rparr>)"

text \<open>The second part (lines 1939--1967): the switch on the exit reason.\<close>

definition hvf_vcpu_exec_after_run ::
    "hvf_mem \<Rightarrow> psci \<Rightarrow> bus \<Rightarrow> u8 list \<Rightarrow> cpu_state \<Rightarrow> cpu_abort + cpu_state" where
  "hvf_vcpu_exec_after_run mem ps bus data_buf cpu =
     (case reason (hvf_vcpu_exit_info cpu) of
        HV_EXIT_REASON_CANCELED \<Rightarrow> Inr cpu
      | HV_EXIT_REASON_EXCEPTION \<Rightarrow>
          (case hvf_handle_exception mem ps bus data_buf cpu of
             Inl e \<Rightarrow> Inl e
           | Inr cpu1 \<Rightarrow> Inr (cpu1\<lparr> hvf_vcpu_dirty := True \<rparr>))
      | HV_EXIT_REASON_VTIMER_ACTIVATED \<Rightarrow> Inr (cpu\<lparr> gt_timer_virt := True \<rparr>)
      | HV_EXIT_REASON_UNKNOWN \<Rightarrow> Inl AbortUnhandledExit)"

section \<open>Predicates on the slot table\<close>

text \<open>
  A range \<open>[gpa, gpa + sz)\<close> read over the natural numbers; it lies in the 64-bit
  address space when its end, as the code computes it, does not wrap around.
\<close>

definition range_ok :: "u64 \<Rightarrow> u64 \<Rightarrow> bool" where
  "range_ok gpa sz \<longleftrightarrow> unat gpa + unat sz < 2 ^ 64"

definition ranges_disjoint :: "u64 \<Rightarrow> u64 \<Rightarrow> u64 \<Rightarrow> u64 \<Rightarrow> bool" where
  "ranges_disjoint a asz b bsz \<longleftrightarrow> unat a + unat asz \<le> unat b \<or> unat b + unat bsz \<le> unat a"

definition slots_in_range :: "hvf_mem \<Rightarrow> bool" where
  "slots_in_range s \<longleftrightarrow>
     (\<forall>i<num_slots s. slot_size (slots s i) \<noteq> 0 \<longrightarrow>
        range_ok (slot_start (slots s i)) (slot_size (slots s i)))"

text \<open>The invariant of the data model: active slots (size \<open>> 0\<close>) are pairwise disjoint.\<close>

definition slots_disjoint :: "hvf_mem \<Rightarrow> bool" where
  "slots_disjoint s \<longleftrightarrow>
     (\<forall>i<num_slots s. \<forall>j<num_slots s.
        i \<noteq> j \<longrightarrow> slot_size (slots s i) \<noteq> 0 \<longrightarrow> slot_size (slots s j) \<noteq> 0 \<longrightarrow>
        ranges_disjoint (slot_start (slots s i)) (slot_size (slots s i))
                        (slot_start (slots s j)) (slot_size (slots s j)))"

text \<open>Every slot carries its own index, as \<open>hvf_accel_init\<close> sets it up.\<close>

definition slot_ids_ok :: "hvf_mem \<Rightarrow> bool" where
  "slot_ids_ok s \<longleftrightarrow> (\<forall>i<num_slots s. slot_id (slots s i) = i)"

text \<open>
  The mirror agrees with the slot table: an active slot is present in the mirror with
  its range and host pointer, a free slot is not present.
\<close>

definition mirror_ok :: "hvf_mem \<Rightarrow> bool" where
  "mirror_ok s \<longleftrightarrow>
     (\<forall>i<num_slots s.
        if slot_size (slots s i) \<noteq> 0
        then mac_present (mac_slots s i) \<and> mac_size (mac_slots s i) = slot_size (slots s i)
             \<and> mac_gpa_start (mac_slots s i) = slot_start (slots s i)
             \<and> mac_hva (mac_slots s i) = slot_mem (slots s i)
        else \<not> mac_present (mac_slots s i))
     \<and> (\<forall>i\<ge>num_slots s. \<not> mac_present (mac_slots s i))"

text \<open>
  The writes of \<open>hvf_put_registers\<close> into each register file of the engine, as lists
  of register and value in program order (\<open>e\<close> is the emulator state after
  \<open>aarch64_save_sp\<close>).
\<close>

definition reg_writes :: "cpu_arm_state \<Rightarrow> (hv_reg \<times> u64) list" where
  "reg_writes e = map (\<lambda>i. (regno_to_hv_xreg i, xregs e i)) [0..<31]
      @ [(HV_REG_CPSR, ucast (pstate e)), (HV_REG_PC, pc e),
         (HV_REG_FPSR, ucast (fpsr e)), (HV_REG_FPCR, ucast (fpcr e))]"

definition sys_writes :: "cpu_arm_state \<Rightarrow> (hv_sys_reg \<times> u64) list" where
  "sys_writes e = [(HV_SYS_REG_SP_EL0, sp_el e 0), (HV_SYS_REG_SP_EL1, sp_el e 1),
                   (HV_SYS_REG_ELR_EL1, elr_el e 1), (HV_SYS_REG_SPSR_EL1, banked_spsr e 1)]
      @ map (\<lambda>(r, k). (r, keys e k)) key_catalog @ map (\<lambda>(r, f). (r, cp15 e f)) cp15_catalog"

definition simd_writes :: "cpu_arm_state \<Rightarrow> (hv_simd_fp_reg \<times> u128) list" where
  "simd_writes e = map (\<lambda>i. (regno_to_hv_simd_fp_reg_type i, vfp_qreg e i)) [0..<32]"

text \<open>
  A mirror slot whose host range does not wrap and does not meet the host range
  \<open>[hva, hva + len)\<close>.
\<close>

definition host_miss :: "mac_slot \<Rightarrow> hostptr \<Rightarrow> u64 \<Rightarrow> bool" where
  "host_miss mslot hva len \<longleftrightarrow>
     unat (mac_hva mslot) + unat (mac_size mslot) < 2 ^ 64
     \<and> (unat (mac_hva mslot) + unat (mac_size mslot) \<le> unat hva
        \<or> unat hva + unat len \<le> unat (mac_hva mslot))"

text \<open>
  At most one active slot meets the range \<open>[gpa, gpa + sz)\<close>: of any two distinct active
  slots, one is disjoint from it.
\<close>

definition at_most_one_overlap :: "hvf_mem \<Rightarrow> u64 \<Rightarrow> u64 \<Rightarrow> bool" where
  "at_most_one_overlap s gpa sz \<longleftrightarrow>
     (\<forall>i<num_slots s. \<forall>j<num_slots s.
        i \<noteq> j \<longrightarrow> slot_size (slots s i) \<noteq> 0 \<longrightarrow> slot_size (slots s j) \<noteq> 0 \<longrightarrow>
        ranges_disjoint gpa sz (slot_start (slots s i)) (slot_size (slots s i))
        \<or> ranges_disjoint gpa sz (slot_start (slots s j)) (slot_size (slots s j)))"

text \<open>
  The operations for which the slot manager keeps its slots disjoint: a mapped range
  lies in the 64-bit address space, and so does a section that the listener adds and
  \<open>hvf_set_phys_mem\<close> acts on (RAM that is not user backed), which moreover meets at
  most one active slot (the one \<open>hvf_set_phys_mem\<close> resets). Sections that
  \<open>hvf_set_phys_mem\<close> ignores, unmappings and removals are not restricted.
\<close>

fun op_admissible :: "hvf_mem \<Rightarrow> mem_op \<Rightarrow> bool" where
  "op_admissible s (Map hva gpa sz flags) = range_ok gpa sz"
| "op_admissible s (Unmap gpa sz) = True"
| "op_admissible s (RegionAdd sec) =
     (\<not> is_ram sec \<or> is_user_backed sec
      \<or> (range_ok (offset_within_address_space sec) (section_size sec)
          \<and> at_most_one_overlap s (offset_within_address_space sec) (section_size sec)))"
| "op_admissible s (RegionDel sec) = True"

fun ops_admissible :: "hv_oracle \<Rightarrow> hvf_mem \<Rightarrow> mem_op list \<Rightarrow> bool" where
  "ops_admissible hv s [] = True"
| "ops_admissible hv s (op # ops) =
     (op_admissible s op
      \<and> (case apply_op hv s op of Inl e \<Rightarrow> True | Inr s' \<Rightarrow> ops_admissible hv s' ops))"

text \<open>The invariant carried along a run: disjoint active slots whose ranges do not wrap.\<close>

definition slot_table_inv :: "hvf_mem \<Rightarrow> bool" where
  "slot_table_inv s \<longleftrightarrow> slots_disjoint s \<and> slots_in_range s"

subsection \<open>The mappings as the specification describes them\<close>

text \<open>
  The definitions \<open>spec_apply\<close>, \<open>spec_mappings\<close> and \<open>spec_gpa_to_hva\<close> follow the wording of the specification, not the source: a mapping is a
  triple of guest-physical start, size and host pointer; \<open>map\<close> records the triple (replacing a
  mapping of the same range), \<open>unmap\<close> removes the mapping of that range, and the lookup returns
  the host pointer of the covering mapping plus the offset of the address within its range.
  They are compared below with the lookup of the source, \<open>hvf_gpa2hva\<close>.
\<close>

type_synonym spec_mapping = "u64 \<times> u64 \<times> hostptr"

fun spec_apply :: "mem_op \<Rightarrow> spec_mapping list \<Rightarrow> spec_mapping list" where
  "spec_apply (Map hva gpa sz flags) ms =
     (if sz = 0 then ms else (gpa, sz, hva) # filter (\<lambda>(g, z, h). \<not> (g = gpa \<and> z = sz)) ms)"
| "spec_apply (Unmap gpa sz) ms = filter (\<lambda>(g, z, h). \<not> (g = gpa \<and> z = sz)) ms"
| "spec_apply (RegionAdd sec) ms = ms"
| "spec_apply (RegionDel sec) ms = ms"

definition spec_mappings :: "mem_op list \<Rightarrow> spec_mapping list" where
  "spec_mappings ops = fold spec_apply ops []"

definition spec_gpa_to_hva :: "spec_mapping list \<Rightarrow> u64 \<Rightarrow> hostptr option" where
  "spec_gpa_to_hva ms x =
     (case List.find (\<lambda>(g, z, h). unat g \<le> unat x \<and> unat x < unat g + unat z) ms of
        None \<Rightarrow> None
      | Some (g, z, h) \<Rightarrow> Some (h + (x - g)))"

text \<open>Sequences made of \<open>hvf_map_safe\<close> and \<open>hvf_unmap_safe\<close> calls only.\<close>

fun is_map_or_unmap :: "mem_op \<Rightarrow> bool" where
  "is_map_or_unmap (Map hva gpa sz flags) = True"
| "is_map_or_unmap (Unmap gpa sz) = True"
| "is_map_or_unmap (RegionAdd sec) = False"
| "is_map_or_unmap (RegionDel sec) = False"

text \<open>The active slots of the table, read as triples; the mirror table agrees with them.\<close>

definition slot_triples :: "hvf_mem \<Rightarrow> spec_mapping set" where
  "slot_triples s =
     (\<lambda>i. (slot_start (slots s i), slot_size (slots s i), slot_mem (slots s i)))
       ` {i. i < num_slots s \<and> slot_size (slots s i) \<noteq> 0}"

definition mirror_inv :: "hvf_mem \<Rightarrow> bool" where
  "mirror_inv s \<longleftrightarrow> slot_ids_ok s \<and> mirror_ok s \<and> num_slots s = HVF_MAX_SLOTS"

definition tracks :: "hvf_mem \<Rightarrow> spec_mapping list \<Rightarrow> bool" where
  "tracks s ms \<longleftrightarrow> slot_table_inv s \<and> mirror_inv s \<and> set ms = slot_triples s"

section \<open>Example inputs\<close>

text \<open>A hardware layer whose calls all succeed.\<close>

definition hv_always_ok :: hv_oracle where
  "hv_always_ok l c = True"

text \<open>The table after \<open>hvf_map_safe(0x10000, 0x1000, 0x1000, 3)\<close> on the initial table.\<close>

definition mem_one_mapping :: hvf_mem where
  "mem_one_mapping =
     hvf_accel_init
       \<lparr> slots := (slots hvf_accel_init)
            (0 := \<lparr> slot_start = 0x1000, slot_size = 0x1000, slot_mem = 0x10000, slot_id = 0 \<rparr>),
         mac_slots := (mac_slots hvf_accel_init)
            (0 := \<lparr> mac_present = True, mac_size = 0x1000, mac_gpa_start = 0x1000,
                     mac_gva = 0, mac_hva = 0x10000 \<rparr>),
         hv_calls := [HV_VM_MAP 0x10000 0x1000 0x1000 3] \<rparr>"

text \<open>
  A vCPU stopped at an exception exit with the given syndrome, at guest-physical
  address \<open>0x9000000\<close>: the emulator state has the vector registers numbered, the
  engine's registers are zero.
\<close>

definition env_example :: cpu_arm_state where
  "env_example =
     \<lparr> xregs = (\<lambda>i. 0), pc = 0x40000000, pstate = 5, sp_el = (\<lambda>i. 0), elr_el = (\<lambda>i. 0),
       banked_spsr = (\<lambda>i. 0), vfp_qreg = (\<lambda>i. of_nat i), fpsr = 0, fpcr = 0,
       keys = (\<lambda>k. 0), cp15 = (\<lambda>f. 0) \<rparr>"

definition hw_zero :: hv_vcpu where
  "hw_zero =
     \<lparr> hv_reg_file = (\<lambda>r. 0), hv_sys_reg_file = (\<lambda>r. 0), hv_simd_fp_reg_file = (\<lambda>r. 0),
       hv_pending_irq = False, hv_pending_fiq = False \<rparr>"

definition cpu_exit :: "u64 \<Rightarrow> cpu_state" where
  "cpu_exit syn =
     \<lparr> env = env_example, hvf_fd = hw_zero,
       hvf_vcpu_exit_info = \<lparr> reason = HV_EXIT_REASON_EXCEPTION, syndrome = syn,
                              virtual_address = 0, physical_address = 0x9000000 \<rparr>,
       hvf_vcpu_dirty = False, hvf_irq_pending = False, hvf_fiq_pending = False,
       bus_log = [], gt_timer_virt = False \<rparr>"

text \<open>
  A vCPU stopped by a hypervisor call (exception class \<open>0x16\<close>) issued at EL1 (the
  engine's processor state is 5, its program counter \<open>0x40000000\<close>), while the engine's
  vector registers hold their own numbers (Q20 holds 20, Q30 holds 30) and its other
  registers are zero.
\<close>

definition hw_numbered :: hv_vcpu where
  "hw_numbered =
     hw_zero\<lparr> hv_reg_file := (\<lambda>r. 0)(HV_REG_CPSR := 5, HV_REG_PC := 0x40000000),
              hv_simd_fp_reg_file := (\<lambda>r. case r of HV_SIMD_FP_REG_Q i \<Rightarrow> of_nat i) \<rparr>"

definition cpu_hvc :: cpu_state where
  "cpu_hvc =
     \<lparr> env = env_example, hvf_fd = hw_numbered,
       hvf_vcpu_exit_info = \<lparr> reason = HV_EXIT_REASON_EXCEPTION, syndrome = 0x58000000,
                              virtual_address = 0, physical_address = 0 \<rparr>,
       hvf_vcpu_dirty = False, hvf_irq_pending = False, hvf_fiq_pending = False,
       bus_log = [], gt_timer_virt = False \<rparr>"

text \<open>A device that answers every read with the bytes \<open>34 12 00 ...\<close>; no PSCI calls.\<close>

definition bus_1234 :: bus where
  "bus_1234 l a n = take n [0x34, 0x12, 0, 0, 0, 0, 0, 0]"

definition psci_none :: psci where
  "psci_none = ((\<lambda>e. False), (\<lambda>e. e))"

text \<open>
  Two mappings whose host ranges are adjacent, \<open>[0x10000, 0x11000)\<close> at guest address
  \<open>0x1000\<close> and \<open>[0x11000, 0x12000)\<close> at guest address \<open>0x5000\<close>: once mapped in this
  order (slots 0 and 1), once in the opposite order.
\<close>

definition mem_two_adjacent :: hvf_mem where
  "mem_two_adjacent =
     hvf_accel_init
       \<lparr> slots := (slots hvf_accel_init)
            (0 := \<lparr> slot_start = 0x1000, slot_size = 0x1000, slot_mem = 0x10000, slot_id = 0 \<rparr>,
             1 := \<lparr> slot_start = 0x5000, slot_size = 0x1000, slot_mem = 0x11000, slot_id = 1 \<rparr>),
         mac_slots := (mac_slots hvf_accel_init)
            (0 := \<lparr> mac_present = True, mac_size = 0x1000, mac_gpa_start = 0x1000,
                     mac_gva = 0, mac_hva = 0x10000 \<rparr>,
             1 := \<lparr> mac_present = True, mac_size = 0x1000, mac_gpa_start = 0x5000,
                     mac_gva = 0, mac_hva = 0x11000 \<rparr>),
         hv_calls := [HV_VM_MAP 0x10000 0x1000 0x1000 3, HV_VM_MAP 0x11000 0x5000 0x1000 3] \<rparr>"

definition mem_two_reversed :: hvf_mem where
  "mem_two_reversed =
     hvf_accel_init
       \<lparr> slots := (slots hvf_accel_init)
            (0 := \<lparr> slot_start = 0x5000, slot_size = 0x1000, slot_mem = 0x11000, slot_id = 0 \<rparr>,
             1 := \<lparr> slot_start = 0x1000, slot_size = 0x1000, slot_mem = 0x10000, slot_id = 1 \<rparr>),
         mac_slots := (mac_slots hvf_accel_init)
            (0 := \<lparr> mac_present = True, mac_size = 0x1000, mac_gpa_start = 0x5000,
                     mac_gva = 0, mac_hva = 0x11000 \<rparr>,
             1 := \<lparr> mac_present = True, mac_size = 0x1000, mac_gpa_start = 0x1000,
                     mac_gva = 0, mac_hva = 0x10000 \<rparr>),
         hv_calls := [HV_VM_MAP 0x11000 0x5000 0x1000 3, HV_VM_MAP 0x10000 0x1000 0x1000 3] \<rparr>"

text \<open>
  Three RAM sections for the memory listener: \<open>[0x1000, 0x2000)\<close>, \<open>[0x2000, 0x3000)\<close>
  and \<open>[0x1000, 0x3000)\<close>, which covers both; and the tables after adding them in this
  order to the initial table.
\<close>

definition sec_a :: memory_region_section where
  "sec_a = \<lparr> is_ram = True, is_user_backed = False, offset_within_address_space = 0x1000,
             section_size = 0x1000, ram_ptr = 0x10000 \<rparr>"

definition sec_b :: memory_region_section where
  "sec_b = \<lparr> is_ram = True, is_user_backed = False, offset_within_address_space = 0x2000,
             section_size = 0x1000, ram_ptr = 0x11000 \<rparr>"

definition sec_ab :: memory_region_section where
  "sec_ab = \<lparr> is_ram = True, is_user_backed = False, offset_within_address_space = 0x1000,
             section_size = 0x2000, ram_ptr = 0x10000 \<rparr>"

definition mem_overlapping :: hvf_mem where
  "mem_overlapping =
     hvf_accel_init
       \<lparr> slots := (slots hvf_accel_init)
            (0 := \<lparr> slot_start = 0x1000, slot_size = 0x2000, slot_mem = 0x10000, slot_id = 0 \<rparr>,
             1 := \<lparr> slot_start = 0x2000, slot_size = 0x1000, slot_mem = 0x11000, slot_id = 1 \<rparr>),
         mac_slots := (mac_slots hvf_accel_init)
            (0 := \<lparr> mac_present = True, mac_size = 0x2000, mac_gpa_start = 0x1000,
                     mac_gva = 0, mac_hva = 0x10000 \<rparr>,
             1 := \<lparr> mac_present = True, mac_size = 0x1000, mac_gpa_start = 0x2000,
                     mac_gva = 0, mac_hva = 0x11000 \<rparr>),
         hv_calls := [HV_VM_MAP 0x10000 0x1000 0x1000 7, HV_VM_MAP 0x11000 0x2000 0x1000 7,
                      HV_VM_UNMAP 0x1000 0x1000, HV_VM_MAP 0x10000 0x1000 0x2000 7] \<rparr>"

text \<open>
  Three more sections for the listener: RAM at \<open>[0x5000, 0x6000)\<close>, RAM at
  \<open>[0x5000, 0x7000)\<close> with the same host address, and an I/O section (not RAM) that
  covers \<open>[0x1000, 0x6000)\<close>.
\<close>

definition sec_c :: memory_region_section where
  "sec_c = \<lparr> is_ram = True, is_user_backed = False, offset_within_address_space = 0x5000,
             section_size = 0x1000, ram_ptr = 0x11000 \<rparr>"

definition sec_io :: memory_region_section where
  "sec_io = \<lparr> is_ram = False, is_user_backed = False, offset_within_address_space = 0x1000,
              section_size = 0x5000, ram_ptr = 0 \<rparr>"

definition sec_d :: memory_region_section where
  "sec_d = \<lparr> is_ram = True, is_user_backed = False, offset_within_address_space = 0x5000,
             section_size = 0x2000, ram_ptr = 0x11000 \<rparr>"

text \<open>
  A run on the initial table: a user-backed mapping, the first RAM section, the I/O
  section (which \<open>hvf_set_phys_mem\<close> ignores), and the larger RAM section, for which
  \<open>hvf_set_phys_mem\<close> resets slot 1 and fills it again. The run ends with two active
  slots.
\<close>

definition ops_regions :: "mem_op list" where
  "ops_regions = [Map 0x10000 0x1000 0x1000 3, RegionAdd sec_c, RegionAdd sec_io, RegionAdd sec_d]"

definition mem_after_regions :: hvf_mem where
  "mem_after_regions =
     hvf_accel_init
       \<lparr> slots := (slots hvf_accel_init)
            (0 := \<lparr> slot_start = 0x1000, slot_size = 0x1000, slot_mem = 0x10000, slot_id = 0 \<rparr>,
             1 := \<lparr> slot_start = 0x5000, slot_size = 0x2000, slot_mem = 0x11000, slot_id = 1 \<rparr>),
         mac_slots := (mac_slots hvf_accel_init)
            (0 := \<lparr> mac_present = True, mac_size = 0x1000, mac_gpa_start = 0x1000,
                     mac_gva = 0, mac_hva = 0x10000 \<rparr>,
             1 := \<lparr> mac_present = True, mac_size = 0x2000, mac_gpa_start = 0x5000,
                     mac_gva = 0, mac_hva = 0x11000 \<rparr>),
         hv_calls := [HV_VM_MAP 0x10000 0x1000 0x1000 3, HV_VM_MAP 0x11000 0x5000 0x1000 7,
                      HV_VM_UNMAP 0x5000 0x1000, HV_VM_MAP 0x11000 0x5000 0x2000 7] \<rparr>"

text \<open>
  The table after mapping the last page of the guest-physical address space,
  \<open>[0xFFFFFFFFFFFFF000, 2^64)\<close>, on the initial table; and the tables after mapping the
  same range once more, with the same host pointer and with another one.
\<close>

definition mem_last_page :: hvf_mem where
  "mem_last_page =
     hvf_accel_init
       \<lparr> slots := (slots hvf_accel_init)
            (0 := \<lparr> slot_start = 0xFFFFFFFFFFFFF000, slot_size = 0x1000, slot_mem = 0x10000,
                     slot_id = 0 \<rparr>),
         mac_slots := (mac_slots hvf_accel_init)
            (0 := \<lparr> mac_present = True, mac_size = 0x1000, mac_gpa_start = 0xFFFFFFFFFFFFF000,
                     mac_gva = 0, mac_hva = 0x10000 \<rparr>),
         hv_calls := [HV_VM_MAP 0x10000 0xFFFFFFFFFFFFF000 0x1000 3] \<rparr>"

definition mem_last_page_twice :: hvf_mem where
  "mem_last_page_twice =
     mem_last_page
       \<lparr> slots := (slots mem_last_page)
            (1 := \<lparr> slot_start = 0xFFFFFFFFFFFFF000, slot_size = 0x1000, slot_mem = 0x10000,
                     slot_id = 1 \<rparr>),
         mac_slots := (mac_slots mem_last_page)
            (1 := \<lparr> mac_present = True, mac_size = 0x1000, mac_gpa_start = 0xFFFFFFFFFFFFF000,
                     mac_gva = 0, mac_hva = 0x10000 \<rparr>),
         hv_calls := [HV_VM_MAP 0x10000 0xFFFFFFFFFFFFF000 0x1000 3,
                      HV_VM_MAP 0x10000 0xFFFFFFFFFFFFF000 0x1000 3] \<rparr>"

definition mem_last_page_alias :: hvf_mem where
  "mem_last_page_alias =
     mem_last_page
       \<lparr> slots := (slots mem_last_page)
            (1 := \<lparr> slot_start = 0xFFFFFFFFFFFFF000, slot_size = 0x1000, slot_mem = 0x20000,
                     slot_id = 1 \<rparr>),
         mac_slots := (mac_slots mem_last_page)
            (1 := \<lparr> mac_present = True, mac_size = 0x1000, mac_gpa_start = 0xFFFFFFFFFFFFF000,
                     mac_gva = 0, mac_hva = 0x20000 \<rparr>),
         hv_calls := [HV_VM_MAP 0x10000 0xFFFFFFFFFFFFF000 0x1000 3,
                      HV_VM_MAP 0x20000 0xFFFFFFFFFFFFF000 0x1000 3] \<rparr>"

text \<open>
  The table after \<open>hvf_map_safe(0x20000, 0x1800, 0xFFFFFFFFFFFFE800, 3)\<close>, a request for
  \<open>[0x1800, 2^64)\<close>, on the table with the one mapping \<open>[0x1000, 0x2000)\<close>.
\<close>

definition mem_wrapped :: hvf_mem where
  "mem_wrapped =
     mem_one_mapping
       \<lparr> slots := (slots mem_one_mapping)
            (1 := \<lparr> slot_start = 0x1800, slot_size = 0xFFFFFFFFFFFFE800, slot_mem = 0x20000,
                     slot_id = 1 \<rparr>),
         mac_slots := (mac_slots mem_one_mapping)
            (1 := \<lparr> mac_present = True, mac_size = 0xFFFFFFFFFFFFE800, mac_gpa_start = 0x1800,
                     mac_gva = 0, mac_hva = 0x20000 \<rparr>),
         hv_calls := [HV_VM_MAP 0x10000 0x1000 0x1000 3,
                      HV_VM_MAP 0x20000 0x1800 0xFFFFFFFFFFFFE800 3] \<rparr>"

text \<open>
  A run of map and unmap calls that ends with two mappings: the first range is unmapped
  and its slot is used again for a third range.
\<close>

definition ops_two_live :: "mem_op list" where
  "ops_two_live =
     [Map 0x10000 0x1000 0x1000 3, Map 0x11000 0x5000 0x1000 3, Unmap 0x1000 0x1000,
      Map 0x20000 0x3000 0x800 3]"

definition mem_two_live :: hvf_mem where
  "mem_two_live =
     hvf_accel_init
       \<lparr> slots := (slots hvf_accel_init)
            (0 := \<lparr> slot_start = 0x3000, slot_size = 0x800, slot_mem = 0x20000, slot_id = 0 \<rparr>,
             1 := \<lparr> slot_start = 0x5000, slot_size = 0x1000, slot_mem = 0x11000, slot_id = 1 \<rparr>),
         mac_slots := (mac_slots hvf_accel_init)
            (0 := \<lparr> mac_present = True, mac_size = 0x800, mac_gpa_start = 0x3000,
                     mac_gva = 0, mac_hva = 0x20000 \<rparr>,
             1 := \<lparr> mac_present = True, mac_size = 0x1000, mac_gpa_start = 0x5000,
                     mac_gva = 0, mac_hva = 0x11000 \<rparr>),
         hv_calls := [HV_VM_MAP 0x10000 0x1000 0x1000 3, HV_VM_MAP 0x11000 0x5000 0x1000 3,
                      HV_VM_UNMAP 0x1000 0x1000, HV_VM_MAP 0x20000 0x3000 0x800 3] \<rparr>"

section \<open>Properties of the slot manager\<close>

lemma unat_add_nowrap:
  "unat (a::u64) + unat b < 2 ^ 64 \<Longrightarrow> unat (a + b) = unat a + unat b"
  using unat_add_lem[of a b] by simp

text \<open>On ranges that do not wrap, the 64-bit overlap test is overlap of the ranges.\<close>

lemma slot_overlaps_nat:
  assumes "range_ok (slot_start slot) (slot_size slot)" "range_ok gpa sz"
  shows "slot_overlaps slot gpa (gpa + sz) \<longleftrightarrow>
           slot_size slot \<noteq> 0 \<and> \<not> ranges_disjoint gpa sz (slot_start slot) (slot_size slot)"
proof -
  have a: "unat (slot_start slot + slot_size slot) = unat (slot_start slot) + unat (slot_size slot)"
    using assms(1) by (simp add: range_ok_def unat_add_nowrap)
  have b: "unat (gpa + sz) = unat gpa + unat sz"
    using assms(2) by (simp add: range_ok_def unat_add_nowrap)
  show ?thesis
    by (auto simp: slot_overlaps_def ranges_disjoint_def word_less_nat_alt a b)
qed

lemma find_overlap_Some_iff:
  "hvf_find_overlap_slot s a b = Some m \<longleftrightarrow>
     m < num_slots s \<and> slot_overlaps (slots s m) a b \<and> (\<forall>j<m. \<not> slot_overlaps (slots s j) a b)"
  unfolding hvf_find_overlap_slot_def find_Some_iff
  apply (rule iffI)
   apply (elim exE conjE)
   apply simp
  apply (rule exI[of _ m])
  apply simp
  done

lemma find_overlap_None_iff:
  "hvf_find_overlap_slot s a b = None \<longleftrightarrow> (\<forall>j<num_slots s. \<not> slot_overlaps (slots s j) a b)"
  by (auto simp: hvf_find_overlap_slot_def find_None_iff)

lemma find_overlap_exists:
  assumes "i < num_slots s" "slot_overlaps (slots s i) a b"
  shows "\<exists>m\<le>i. hvf_find_overlap_slot s a b = Some m"
proof -
  let ?P = "\<lambda>j. slot_overlaps (slots s j) a b"
  define m where "m = (LEAST j. ?P j)"
  have pm: "?P m" unfolding m_def using assms(2) by (rule LeastI)
  have le: "m \<le> i" unfolding m_def using assms(2) by (rule Least_le)
  have "\<forall>j<m. \<not> ?P j" unfolding m_def using not_less_Least by blast
  with pm le assms(1) show ?thesis by (auto simp: find_overlap_Some_iff)
qed

text \<open>Looking up the exact range of an active slot finds that slot.\<close>

lemma find_overlap_self:
  assumes dj: "slots_disjoint s" and ir: "slots_in_range s"
    and i: "i < num_slots s" and act: "slot_size (slots s i) \<noteq> 0"
  shows "hvf_find_overlap_slot s (slot_start (slots s i))
           (slot_start (slots s i) + slot_size (slots s i)) = Some i"
proof -
  let ?g = "slot_start (slots s i)" and ?z = "slot_size (slots s i)"
  have ri: "range_ok ?g ?z" using ir i act by (simp add: slots_in_range_def)
  have nz: "unat ?z \<noteq> 0" using act by (simp add: unat_eq_0)
  have oi: "slot_overlaps (slots s i) ?g (?g + ?z)"
    using ri act nz by (simp add: slot_overlaps_nat ranges_disjoint_def)
  from find_overlap_exists[OF i oi] obtain m where m: "m \<le> i"
    and f: "hvf_find_overlap_slot s ?g (?g + ?z) = Some m" by blast
  have om: "slot_overlaps (slots s m) ?g (?g + ?z)" and mn: "m < num_slots s"
    using f by (simp_all add: find_overlap_Some_iff)
  have am: "slot_size (slots s m) \<noteq> 0" using om by (simp add: slot_overlaps_def)
  have rm: "range_ok (slot_start (slots s m)) (slot_size (slots s m))"
    using ir mn am by (simp add: slots_in_range_def)
  have nd: "\<not> ranges_disjoint ?g ?z (slot_start (slots s m)) (slot_size (slots s m))"
    using om rm ri by (simp add: slot_overlaps_nat)
  have "m = i"
  proof (rule ccontr)
    assume "m \<noteq> i"
    then have "ranges_disjoint (slot_start (slots s m)) (slot_size (slots s m)) ?g ?z"
      using dj mn i am act by (simp add: slots_disjoint_def)
    with nd show False by (auto simp: ranges_disjoint_def)
  qed
  with f show ?thesis by simp
qed

text \<open>
  Evaluation of the two scans on a table of which only the first slots are in use.
\<close>

lemma find_first2:
  assumes "2 \<le> n" and "\<And>j. 2 \<le> j \<Longrightarrow> j < n \<Longrightarrow> \<not> P j"
  shows "List.find P [0..<n] = (if P 0 then Some 0 else if P 1 then Some 1 else None)"
proof -
  have "[0..<n] = 0 # 1 # [2..<n]"
    using assms(1) by (simp add: upt_conv_Cons numeral_2_eq_2)
  moreover have "List.find P [2..<n] = None"
    using assms(2) by (simp add: find_None_iff)
  ultimately show ?thesis by simp
qed

text \<open>only the first two slots are in use\<close>
lemma find_overlap_first2:
  assumes "2 \<le> num_slots s" and "\<forall>j. 2 \<le> j \<longrightarrow> j < num_slots s \<longrightarrow> slot_size (slots s j) = 0"
  shows "hvf_find_overlap_slot s a b =
           (if slot_overlaps (slots s 0) a b then Some 0
            else if slot_overlaps (slots s 1) a b then Some 1 else None)"
  unfolding hvf_find_overlap_slot_def
  using assms by (intro find_first2) (simp_all add: slot_overlaps_def)

lemma next_free_first3:
  assumes "3 \<le> num_slots s" and "slot_size (slots s 2) = 0"
  shows "hvf_next_free_slot s =
           (if slot_size (slots s 0) = 0 then Some 0
            else if slot_size (slots s 1) = 0 then Some 1 else Some 2)"
proof -
  have "[0..<num_slots s] = 0 # 1 # 2 # [3..<num_slots s]"
    using assms(1) by (simp add: upt_conv_Cons numeral_3_eq_3 numeral_2_eq_2)
  then show ?thesis using assms(2) by (simp add: hvf_next_free_slot_def)
qed

lemmas eval_defs = hvf_set_phys_mem_def Let_def find_overlap_first2 next_free_first3
  hvf_set_memory_def hvf_set_memory_with_flags_locked_def hv_checked_def slot_overlaps_def
  hv_always_ok_def hvf_accel_init_def HVF_MAX_SLOTS_def HV_MEMORY_RWX_def
  hvf_map_safe_def hvf_map_safe_claim_def hvf_unmap_safe_def HV_SUCCESS_def

text \<open>The example tables, and the runs that lead to them.\<close>

lemma mem_two_adjacent_disjoint: "slots_disjoint mem_two_adjacent"
  by (simp add: slots_disjoint_def mem_two_adjacent_def hvf_accel_init_def ranges_disjoint_def)

lemma mem_two_adjacent_in_range: "slots_in_range mem_two_adjacent"
  by (simp add: slots_in_range_def mem_two_adjacent_def hvf_accel_init_def range_ok_def)

lemma mem_two_adjacent_ids: "slot_ids_ok mem_two_adjacent"
  by (simp add: slot_ids_ok_def mem_two_adjacent_def hvf_accel_init_def)

lemma mem_two_adjacent_mirror: "mirror_ok mem_two_adjacent"
  by (simp add: mirror_ok_def mem_two_adjacent_def hvf_accel_init_def HVF_MAX_SLOTS_def)

lemma run_two_maps:
  "run_ops hv_always_ok hvf_accel_init [Map 0x10000 0x1000 0x1000 3, Map 0x11000 0x5000 0x1000 3]
     = Inr mem_two_adjacent"
  by (simp add: eval_defs mem_two_adjacent_def fun_upd_twist)

lemma run_one_mapping:
  "run_ops hv_always_ok hvf_accel_init [Map 0x10000 0x1000 0x1000 3] = Inr mem_one_mapping"
  by (simp add: eval_defs mem_one_mapping_def)

lemma run_last_page:
  "run_ops hv_always_ok hvf_accel_init [Map 0x10000 0xFFFFFFFFFFFFF000 0x1000 3] = Inr mem_last_page"
  by (simp add: eval_defs mem_last_page_def)

text \<open>
  Claim C5, as amended. In a slot table whose active slots are pairwise disjoint and
  each end below \<open>2^64\<close>, \<open>hvf_map_safe\<close> called with the guest address, size and host
  pointer of an active slot returns \<open>HV_SUCCESS\<close> and leaves the whole state as it was:
  the slot table, the mirror slots, and the log of hardware calls (so neither a map nor
  an unmap call is issued).
\<close>

theorem map_same_triple_noop:
  assumes "slots_disjoint s" and "slots_in_range s"
    and "i < num_slots s" and "slot_size (slots s i) \<noteq> 0"
    and "slot_start (slots s i) = gpa" and "slot_size (slots s i) = sz"
    and "slot_mem (slots s i) = hva"
  shows "hvf_map_safe hv s hva gpa sz flags = Inr (HV_SUCCESS, s)"
  using find_overlap_self[OF assms(1-4)] assms(5-7)
  by (simp add: hvf_map_safe_def)

text \<open>An instance on the table with two active slots, for the second of them.\<close>

theorem map_same_triple_noop_witness:
  "slots_disjoint mem_two_adjacent \<and> slots_in_range mem_two_adjacent
   \<and> 1 < num_slots mem_two_adjacent \<and> slot_size (slots mem_two_adjacent 1) \<noteq> 0
   \<and> slot_start (slots mem_two_adjacent 1) = 0x5000 \<and> slot_size (slots mem_two_adjacent 1) = 0x1000
   \<and> slot_mem (slots mem_two_adjacent 1) = 0x11000
   \<and> hvf_map_safe hv_always_ok mem_two_adjacent 0x11000 0x5000 0x1000 3
       = Inr (HV_SUCCESS, mem_two_adjacent)"
proof -
  have h: "1 < num_slots mem_two_adjacent" "slot_size (slots mem_two_adjacent 1) \<noteq> 0"
    "slot_start (slots mem_two_adjacent 1) = 0x5000" "slot_size (slots mem_two_adjacent 1) = 0x1000"
    "slot_mem (slots mem_two_adjacent 1) = 0x11000"
    by (simp_all add: mem_two_adjacent_def hvf_accel_init_def HVF_MAX_SLOTS_def)
  show ?thesis
    using map_same_triple_noop[OF mem_two_adjacent_disjoint mem_two_adjacent_in_range h(1,2,3,4,5),
        of hv_always_ok 3] h mem_two_adjacent_disjoint mem_two_adjacent_in_range
    by simp
qed

text \<open>
  The claim as stated fails for a mapping that ends at \<open>2^64\<close>: the end \<open>gpa + size\<close>
  wraps to 0, so \<open>hvf_find_overlap_slot\<close> does not find the slot again. After the last
  page \<open>[0xFFFFFFFFFFFFF000, 2^64)\<close> has been mapped, mapping it a second time with the
  same host pointer fills slot 1 and issues a second \<open>hv_vm_map\<close>.
\<close>

lemma map_last_page_again:
  "hvf_map_safe hv_always_ok mem_last_page 0x10000 0xFFFFFFFFFFFFF000 0x1000 3
     = Inr (0, mem_last_page_twice)"
  by (simp add: eval_defs mem_last_page_def mem_last_page_twice_def fun_upd_twist)

theorem map_same_triple_last_page_counterexample:
  "run_ops hv_always_ok hvf_accel_init [Map 0x10000 0xFFFFFFFFFFFFF000 0x1000 3] = Inr mem_last_page
   \<and> slot_start (slots mem_last_page 0) = 0xFFFFFFFFFFFFF000
   \<and> slot_size (slots mem_last_page 0) = 0x1000
   \<and> slot_mem (slots mem_last_page 0) = 0x10000
   \<and> hvf_map_safe hv_always_ok mem_last_page 0x10000 0xFFFFFFFFFFFFF000 0x1000 3
       = Inr (0, mem_last_page_twice)
   \<and> hv_calls mem_last_page_twice
       = hv_calls mem_last_page @ [HV_VM_MAP 0x10000 0xFFFFFFFFFFFFF000 0x1000 3]
   \<and> slot_size (slots mem_last_page 1) = 0
   \<and> slot_size (slots mem_last_page_twice 1) = 0x1000"
  unfolding run_last_page map_last_page_again
  by (simp add: mem_last_page_def mem_last_page_twice_def hvf_accel_init_def)

text \<open>
  Disjoint slots are needed as well: in the table that three region-adds leave (slot 0
  holds \<open>[0x1000, 0x3000)\<close>, slot 1 holds \<open>[0x2000, 0x3000)\<close>), a map with the triple of
  slot 1 meets slot 0 first and is fatal.
\<close>

lemma map_own_triple_overlapping:
  "hvf_map_safe hv_always_ok mem_overlapping 0x11000 0x2000 0x1000 7
     = Inl (MapPartialOverlap, mem_overlapping)"
  by (simp add: eval_defs mem_overlapping_def)

text \<open>
  Claim C7, as amended. In a slot table whose active slots are pairwise disjoint and
  each end below \<open>2^64\<close>, a map request whose range ends below \<open>2^64\<close> and overlaps an
  active slot without having the same start and size is fatal: \<open>hvf_map_safe\<close> ends in
  \<open>qemu_abort\<close>, and the tables at that point are the ones it was called with (no slot
  changed, no hardware call logged).
\<close>

theorem map_partial_overlap_fatal:
  assumes dj: "slots_disjoint s" and ir: "slots_in_range s" and rq: "range_ok gpa sz"
    and i: "i < num_slots s" and act: "slot_size (slots s i) \<noteq> 0"
    and ov: "\<not> ranges_disjoint gpa sz (slot_start (slots s i)) (slot_size (slots s i))"
    and ne: "\<not> (slot_start (slots s i) = gpa \<and> slot_size (slots s i) = sz)"
  shows "hvf_map_safe hv s hva gpa sz flags = Inl (MapPartialOverlap, s)"
proof -
  have ri: "range_ok (slot_start (slots s i)) (slot_size (slots s i))"
    using ir i act by (simp add: slots_in_range_def)
  have oi: "slot_overlaps (slots s i) gpa (gpa + sz)"
    using ri rq act ov by (simp add: slot_overlaps_nat)
  from find_overlap_exists[OF i oi] obtain m where
    f: "hvf_find_overlap_slot s gpa (gpa + sz) = Some m" by blast
  have om: "slot_overlaps (slots s m) gpa (gpa + sz)" and mn: "m < num_slots s"
    using f by (simp_all add: find_overlap_Some_iff)
  have am: "slot_size (slots s m) \<noteq> 0" using om by (simp add: slot_overlaps_def)
  have inexact: "\<not> (slot_start (slots s m) = gpa \<and> slot_size (slots s m) = sz)"
  proof
    assume ex: "slot_start (slots s m) = gpa \<and> slot_size (slots s m) = sz"
    with ne have "m \<noteq> i" by auto
    then have "ranges_disjoint (slot_start (slots s m)) (slot_size (slots s m))
                 (slot_start (slots s i)) (slot_size (slots s i))"
      using dj mn i am act by (simp add: slots_disjoint_def)
    with ex ov show False by simp
  qed
  show ?thesis using f inexact by (auto simp: hvf_map_safe_def)
qed

text \<open>An instance on the table with two active slots, for a range across the end of the second.\<close>

theorem map_partial_overlap_fatal_witness:
  "slots_disjoint mem_two_adjacent \<and> slots_in_range mem_two_adjacent \<and> range_ok 0x5800 0x1000
   \<and> 1 < num_slots mem_two_adjacent \<and> slot_size (slots mem_two_adjacent 1) \<noteq> 0
   \<and> \<not> ranges_disjoint 0x5800 0x1000 (slot_start (slots mem_two_adjacent 1))
                                       (slot_size (slots mem_two_adjacent 1))
   \<and> \<not> (slot_start (slots mem_two_adjacent 1) = 0x5800 \<and> slot_size (slots mem_two_adjacent 1) = 0x1000)
   \<and> hvf_map_safe hv_always_ok mem_two_adjacent 0x20000 0x5800 0x1000 3
       = Inl (MapPartialOverlap, mem_two_adjacent)"
proof -
  have h: "range_ok 0x5800 0x1000" "1 < num_slots mem_two_adjacent"
    "slot_size (slots mem_two_adjacent 1) \<noteq> 0"
    "\<not> ranges_disjoint 0x5800 0x1000 (slot_start (slots mem_two_adjacent 1))
                                       (slot_size (slots mem_two_adjacent 1))"
    "\<not> (slot_start (slots mem_two_adjacent 1) = 0x5800 \<and> slot_size (slots mem_two_adjacent 1) = 0x1000)"
    by (simp_all add: mem_two_adjacent_def hvf_accel_init_def HVF_MAX_SLOTS_def range_ok_def
        ranges_disjoint_def)
  show ?thesis
    using map_partial_overlap_fatal[OF mem_two_adjacent_disjoint mem_two_adjacent_in_range h,
        of hv_always_ok "0x20000" 3] h mem_two_adjacent_disjoint mem_two_adjacent_in_range
    by simp
qed

text \<open>
  The claim as stated fails for a request that reaches \<open>2^64\<close>: its end wraps to 0 and
  the overlap test \<open>end > slot->start\<close> fails for every slot. On the table with the one
  mapping \<open>[0x1000, 0x2000)\<close>, the request \<open>[0x1800, 2^64)\<close> overlaps that mapping
  without being identical to it, and yet \<open>hvf_map_safe\<close> returns 0 after filling slot 1
  and issuing \<open>hv_vm_map\<close> for the new range.
\<close>

lemma map_wrapped:
  "hvf_map_safe hv_always_ok mem_one_mapping 0x20000 0x1800 0xFFFFFFFFFFFFE800 3
     = Inr (0, mem_wrapped)"
  by (simp add: eval_defs mem_one_mapping_def mem_wrapped_def fun_upd_twist)

theorem map_partial_overlap_wrapping_counterexample:
  "run_ops hv_always_ok hvf_accel_init [Map 0x10000 0x1000 0x1000 3] = Inr mem_one_mapping
   \<and> slot_start (slots mem_one_mapping 0) = 0x1000 \<and> slot_size (slots mem_one_mapping 0) = 0x1000
   \<and> \<not> ranges_disjoint 0x1800 0xFFFFFFFFFFFFE800 0x1000 0x1000
   \<and> hvf_map_safe hv_always_ok mem_one_mapping 0x20000 0x1800 0xFFFFFFFFFFFFE800 3
       = Inr (0, mem_wrapped)
   \<and> hv_calls mem_wrapped
       = hv_calls mem_one_mapping @ [HV_VM_MAP 0x20000 0x1800 0xFFFFFFFFFFFFE800 3]
   \<and> slot_size (slots mem_one_mapping 1) = 0
   \<and> slot_size (slots mem_wrapped 1) = 0xFFFFFFFFFFFFE800"
  unfolding run_one_mapping map_wrapped
  by (simp add: mem_one_mapping_def mem_wrapped_def hvf_accel_init_def ranges_disjoint_def)

text \<open>
  The two conditions on the table are needed as well. A request \<open>[2^64 - 0x1800, 2^64 - 0x800)\<close>
  overlaps the active last page (whose end wraps) and is accepted; and in the table with
  the overlapping slots 0 and 1, a request with the range of slot 0 overlaps slot 1 without
  being identical to it and is accepted as a new host pointer for slot 0.
\<close>

lemma map_before_last_page:
  "map_sum fst fst (hvf_map_safe hv_always_ok mem_last_page 0x20000 0xFFFFFFFFFFFFE800 0x1000 3)
     = Inr 0"
  by (simp add: eval_defs mem_last_page_def)

lemma map_exact_first_overlapping:
  "map_sum fst fst (hvf_map_safe hv_always_ok mem_overlapping 0x20000 0x1000 0x2000 7) = Inr 0"
  by (simp add: eval_defs mem_overlapping_def)

lemma next_free_exists:
  assumes "i < num_slots s" "slot_size (slots s i) = 0"
  shows "\<exists>f\<le>i. hvf_next_free_slot s = Some f \<and> slot_size (slots s f) = 0"
proof -
  let ?P = "\<lambda>j. slot_size (slots s j) = 0"
  define f where "f = (LEAST j. ?P j)"
  have pf: "?P f" unfolding f_def using assms(2) by (rule LeastI)
  have le: "f \<le> i" unfolding f_def using assms(2) by (rule Least_le)
  have nl: "\<forall>j<f. \<not> ?P j" unfolding f_def using not_less_Least by blast
  have "List.find ?P [0..<num_slots s] = Some f"
    unfolding find_Some_iff
    apply (rule exI[of _ f])
    using pf le nl assms(1) apply simp
    done
  then show ?thesis using pf le by (auto simp: hvf_next_free_slot_def)
qed

lemma set_memory_release:
  assumes "slot_size (slots s m) = 0" "mac_present (mac_slots s (slot_id (slots s m)))"
    "mac_size (mac_slots s (slot_id (slots s m))) \<noteq> 0"
    "hv (hv_calls s) (HV_VM_UNMAP (mac_gpa_start (mac_slots s (slot_id (slots s m))))
                                 (mac_size (mac_slots s (slot_id (slots s m)))))"
  shows "hvf_set_memory_with_flags_locked hv s m flags =
           Inr (0, s\<lparr> mac_slots := (mac_slots s)(slot_id (slots s m) :=
                        (mac_slots s (slot_id (slots s m)))\<lparr> mac_present := False \<rparr>),
                     hv_calls := hv_calls s @ [HV_VM_UNMAP (mac_gpa_start (mac_slots s (slot_id (slots s m))))
                                 (mac_size (mac_slots s (slot_id (slots s m))))] \<rparr>)"
  using assms by (simp add: hvf_set_memory_with_flags_locked_def hv_checked_def Let_def)

lemma set_memory_commit:
  assumes "slot_size (slots s m) \<noteq> 0" "\<not> mac_present (mac_slots s (slot_id (slots s m)))"
    "hv (hv_calls s) (HV_VM_MAP (slot_mem (slots s m)) (slot_start (slots s m)) (slot_size (slots s m)) flags)"
  shows "hvf_set_memory_with_flags_locked hv s m flags =
           Inr (0, s\<lparr> mac_slots := (mac_slots s)(slot_id (slots s m) :=
                        (mac_slots s (slot_id (slots s m)))
                          \<lparr> mac_present := True, mac_size := slot_size (slots s m),
                            mac_gpa_start := slot_start (slots s m), mac_hva := slot_mem (slots s m) \<rparr>),
                     hv_calls := hv_calls s @ [HV_VM_MAP (slot_mem (slots s m)) (slot_start (slots s m)) (slot_size (slots s m)) flags] \<rparr>)"
  using assms by (simp add: hvf_set_memory_with_flags_locked_def hv_checked_def Let_def)

text \<open>
  Claim C6, as amended. In a slot table whose active slots are pairwise disjoint and
  each end below \<open>2^64\<close>, in which every slot carries its index and the mirror agrees
  with the slots (as the code keeps them), \<open>hvf_map_safe\<close> called with the start and
  size of an active slot but another host pointer, on a hardware layer that accepts the
  two calls, returns 0 after exactly two hardware calls, one unmap of the range followed
  by one map of it to the new host pointer; afterwards a mirror slot is present for the
  range with the new host pointer, and every present mirror slot with that range records
  the new pointer.
\<close>

theorem map_new_host_ptr_remaps:
  assumes dj: "slots_disjoint s" and ir: "slots_in_range s"
    and ids: "slot_ids_ok s" and mir: "mirror_ok s"
    and i: "i < num_slots s" and act: "slot_size (slots s i) \<noteq> 0"
    and st: "slot_start (slots s i) = gpa" and sz: "slot_size (slots s i) = sz"
    and hva: "slot_mem (slots s i) \<noteq> hva"
    and ok1: "hv (hv_calls s) (HV_VM_UNMAP gpa sz)"
    and ok2: "hv (hv_calls s @ [HV_VM_UNMAP gpa sz]) (HV_VM_MAP hva gpa sz flags)"
  shows "\<exists>s' f. hvf_map_safe hv s hva gpa sz flags = Inr (0, s')
           \<and> hv_calls s' = hv_calls s @ [HV_VM_UNMAP gpa sz, HV_VM_MAP hva gpa sz flags]
           \<and> f < num_slots s
           \<and> mac_present (mac_slots s' f) \<and> mac_gpa_start (mac_slots s' f) = gpa
           \<and> mac_size (mac_slots s' f) = sz \<and> mac_hva (mac_slots s' f) = hva
           \<and> (\<forall>j. mac_present (mac_slots s' j) \<and> mac_gpa_start (mac_slots s' j) = gpa
                    \<and> mac_size (mac_slots s' j) = sz \<longrightarrow> mac_hva (mac_slots s' j) = hva)"
proof -
  have fi: "hvf_find_overlap_slot s gpa (gpa + sz) = Some i"
    using find_overlap_self[OF dj ir i act] st sz by simp
  have idi: "slot_id (slots s i) = i" using ids i by (simp add: slot_ids_ok_def)
  have mi: "mac_present (mac_slots s i)" "mac_size (mac_slots s i) = sz"
    "mac_gpa_start (mac_slots s i) = gpa"
    using mir i act st sz by (auto simp: mirror_ok_def)
  define sa where "sa = s\<lparr> slots := (slots s)(i := (slots s i)\<lparr> slot_size := 0 \<rparr>) \<rparr>"
  define sb where "sb = sa\<lparr> mac_slots := (mac_slots sa)(i := (mac_slots sa i)\<lparr> mac_present := False \<rparr>),
                           hv_calls := hv_calls sa @ [HV_VM_UNMAP gpa sz] \<rparr>"
  have szn: "sz \<noteq> 0" using act sz by simp
  have rel: "hvf_set_memory_with_flags_locked hv sa i 0 = Inr (0, sb)"
    using set_memory_release[of sa i hv 0] idi mi ok1 szn
    by (simp add: sa_def sb_def)
  have "i < num_slots sb" "slot_size (slots sb i) = 0" using i by (simp_all add: sb_def sa_def)
  from next_free_exists[OF this] obtain f where fle: "f \<le> i"
    and nf: "hvf_next_free_slot sb = Some f" and fz: "slot_size (slots sb f) = 0" by blast
  have fn: "f < num_slots s" using fle i by simp
  have idf: "slot_id (slots s f) = f" using ids fn by (simp add: slot_ids_ok_def)
  have mf: "\<not> mac_present (mac_slots sb f)"
  proof (cases "f = i")
    case True then show ?thesis by (simp add: sb_def sa_def)
  next
    case False
    then have "slot_size (slots s f) = 0" using fz by (simp add: sb_def sa_def)
    then have "\<not> mac_present (mac_slots s f)" using mir fn by (auto simp: mirror_ok_def)
    then show ?thesis using False by (simp add: sb_def sa_def)
  qed
  define sc where "sc = sb\<lparr> slots := (slots sb)(f := (slots sb f)
                        \<lparr> slot_mem := hva, slot_start := gpa, slot_size := sz \<rparr>) \<rparr>"
  define sd where "sd = sc\<lparr> mac_slots := (mac_slots sc)(f := (mac_slots sc f)
                          \<lparr> mac_present := True, mac_size := sz, mac_gpa_start := gpa, mac_hva := hva \<rparr>),
                     hv_calls := hv_calls sc @ [HV_VM_MAP hva gpa sz flags] \<rparr>"
  have idf': "slot_id (slots sc f) = f" using idf idi by (simp add: sc_def sb_def sa_def)
  have c1: "slot_size (slots sc f) = sz" "slot_mem (slots sc f) = hva" "slot_start (slots sc f) = gpa"
    by (simp_all add: sc_def)
  have c2: "mac_slots sc = mac_slots sb" "hv_calls sc = hv_calls s @ [HV_VM_UNMAP gpa sz]"
    by (simp_all add: sc_def sb_def sa_def)
  have mf': "\<not> mac_present (mac_slots sc (slot_id (slots sc f)))" using mf c2 idf' by simp
  have ok2': "hv (hv_calls sc) (HV_VM_MAP (slot_mem (slots sc f)) (slot_start (slots sc f))
                 (slot_size (slots sc f)) flags)"
    using ok2 c1 c2 by simp
  have szn': "slot_size (slots sc f) \<noteq> 0" using szn c1 by simp
  have com: "hvf_set_memory_with_flags_locked hv sc f flags = Inr (0, sd)"
    unfolding set_memory_commit[of sc f hv flags, OF szn' mf' ok2'] sd_def idf' c1 by simp
  have res: "hvf_map_safe hv s hva gpa sz flags = Inr (0, sd)"
    using fi st sz hva rel nf fz com
    by (simp add: hvf_map_safe_def hvf_map_safe_claim_def sa_def[symmetric] sc_def[symmetric])
  have calls: "hv_calls sd = hv_calls s @ [HV_VM_UNMAP gpa sz, HV_VM_MAP hva gpa sz flags]"
    by (simp add: sd_def sc_def sb_def sa_def)
  have mfd: "mac_present (mac_slots sd f)" "mac_gpa_start (mac_slots sd f) = gpa"
    "mac_size (mac_slots sd f) = sz" "mac_hva (mac_slots sd f) = hva"
    by (simp_all add: sd_def)
  have uniq: "mac_hva (mac_slots sd j) = hva"
    if pj: "mac_present (mac_slots sd j)" and gj: "mac_gpa_start (mac_slots sd j) = gpa"
      and zj: "mac_size (mac_slots sd j) = sz" for j
  proof (cases "j = f")
    case True then show ?thesis by (simp add: sd_def)
  next
    case jf: False
    show ?thesis
    proof (cases "j = i")
      case True
      then have "\<not> mac_present (mac_slots sd j)" using jf by (simp add: sd_def sc_def sb_def sa_def)
      with pj show ?thesis by simp
    next
      case ji: False
      have eq: "mac_slots sd j = mac_slots s j" using jf ji by (simp add: sd_def sc_def sb_def sa_def)
      have pj': "mac_present (mac_slots s j)" using pj eq by simp
      have jn: "j < num_slots s"
      proof (rule ccontr)
        assume "\<not> j < num_slots s"
        then have "\<not> mac_present (mac_slots s j)" using mir by (simp add: mirror_ok_def)
        with pj' show False by simp
      qed
      have aj: "slot_size (slots s j) \<noteq> 0"
      proof
        assume "slot_size (slots s j) = 0"
        then have "\<not> mac_present (mac_slots s j)" using mir jn by (auto simp: mirror_ok_def)
        with pj' show False by simp
      qed
      have sj: "slot_start (slots s j) = gpa" "slot_size (slots s j) = sz"
        using mir jn aj gj zj eq by (auto simp: mirror_ok_def)
      have "ranges_disjoint (slot_start (slots s j)) (slot_size (slots s j))
              (slot_start (slots s i)) (slot_size (slots s i))"
        using dj jn i ji aj act by (simp add: slots_disjoint_def)
      then have False using sj st sz szn by (simp add: ranges_disjoint_def unat_eq_0)
      then show ?thesis ..
    qed
  qed
  show ?thesis
    apply (rule exI[of _ sd], rule exI[of _ f])
    using res calls fn mfd uniq by simp
qed

text \<open>An instance on the table with two active slots, for the second of them.\<close>

theorem map_new_host_ptr_remaps_witness:
  "slots_disjoint mem_two_adjacent \<and> slots_in_range mem_two_adjacent
   \<and> slot_ids_ok mem_two_adjacent \<and> mirror_ok mem_two_adjacent
   \<and> 1 < num_slots mem_two_adjacent \<and> slot_size (slots mem_two_adjacent 1) \<noteq> 0
   \<and> slot_start (slots mem_two_adjacent 1) = 0x5000 \<and> slot_size (slots mem_two_adjacent 1) = 0x1000
   \<and> slot_mem (slots mem_two_adjacent 1) \<noteq> 0x20000
   \<and> hv_always_ok (hv_calls mem_two_adjacent) (HV_VM_UNMAP 0x5000 0x1000)
   \<and> hv_always_ok (hv_calls mem_two_adjacent @ [HV_VM_UNMAP 0x5000 0x1000])
        (HV_VM_MAP 0x20000 0x5000 0x1000 3)
   \<and> (\<exists>s' f. hvf_map_safe hv_always_ok mem_two_adjacent 0x20000 0x5000 0x1000 3 = Inr (0, s')
           \<and> hv_calls s' = hv_calls mem_two_adjacent
                  @ [HV_VM_UNMAP 0x5000 0x1000, HV_VM_MAP 0x20000 0x5000 0x1000 3]
           \<and> f < num_slots mem_two_adjacent
           \<and> mac_present (mac_slots s' f) \<and> mac_gpa_start (mac_slots s' f) = 0x5000
           \<and> mac_size (mac_slots s' f) = 0x1000 \<and> mac_hva (mac_slots s' f) = 0x20000
           \<and> (\<forall>j. mac_present (mac_slots s' j) \<and> mac_gpa_start (mac_slots s' j) = 0x5000
                    \<and> mac_size (mac_slots s' j) = 0x1000 \<longrightarrow> mac_hva (mac_slots s' j) = 0x20000))"
proof -
  have h: "1 < num_slots mem_two_adjacent" "slot_size (slots mem_two_adjacent 1) \<noteq> 0"
    "slot_start (slots mem_two_adjacent 1) = 0x5000" "slot_size (slots mem_two_adjacent 1) = 0x1000"
    "slot_mem (slots mem_two_adjacent 1) \<noteq> 0x20000"
    "hv_always_ok (hv_calls mem_two_adjacent) (HV_VM_UNMAP 0x5000 0x1000)"
    "hv_always_ok (hv_calls mem_two_adjacent @ [HV_VM_UNMAP 0x5000 0x1000])
        (HV_VM_MAP 0x20000 0x5000 0x1000 3)"
    by (simp_all add: mem_two_adjacent_def hvf_accel_init_def HVF_MAX_SLOTS_def hv_always_ok_def)
  show ?thesis
    using map_new_host_ptr_remaps[OF mem_two_adjacent_disjoint mem_two_adjacent_in_range
        mem_two_adjacent_ids mem_two_adjacent_mirror h]
      h mem_two_adjacent_disjoint mem_two_adjacent_in_range mem_two_adjacent_ids mem_two_adjacent_mirror
    by simp
qed

text \<open>
  The claim as stated fails for a mapping that ends at \<open>2^64\<close>, which
  \<open>hvf_find_overlap_slot\<close> does not find again: after the last page has been mapped,
  mapping it to another host pointer issues one \<open>hv_vm_map\<close> and no unmap, and leaves
  the old mirror slot present with the old host pointer beside the new one.
\<close>

lemma map_last_page_alias:
  "hvf_map_safe hv_always_ok mem_last_page 0x20000 0xFFFFFFFFFFFFF000 0x1000 3
     = Inr (0, mem_last_page_alias)"
  by (simp add: eval_defs mem_last_page_def mem_last_page_alias_def fun_upd_twist)

theorem map_new_host_ptr_last_page_counterexample:
  "run_ops hv_always_ok hvf_accel_init [Map 0x10000 0xFFFFFFFFFFFFF000 0x1000 3] = Inr mem_last_page
   \<and> hvf_map_safe hv_always_ok mem_last_page 0x20000 0xFFFFFFFFFFFFF000 0x1000 3
       = Inr (0, mem_last_page_alias)
   \<and> hv_calls mem_last_page_alias
       = hv_calls mem_last_page @ [HV_VM_MAP 0x20000 0xFFFFFFFFFFFFF000 0x1000 3]
   \<and> mac_present (mac_slots mem_last_page_alias 0)
   \<and> mac_gpa_start (mac_slots mem_last_page_alias 0) = 0xFFFFFFFFFFFFF000
   \<and> mac_size (mac_slots mem_last_page_alias 0) = 0x1000
   \<and> mac_hva (mac_slots mem_last_page_alias 0) = 0x10000"
  unfolding run_last_page map_last_page_alias
  by (simp add: mem_last_page_def mem_last_page_alias_def hvf_accel_init_def)

text \<open>
  Disjoint slots are needed as well: in the table with the overlapping slots 0 and 1, a
  map of the range of slot 1 to another host pointer meets slot 0 first and is fatal.
\<close>

lemma map_new_ptr_overlapping:
  "hvf_map_safe hv_always_ok mem_overlapping 0x20000 0x2000 0x1000 7
     = Inl (MapPartialOverlap, mem_overlapping)"
  by (simp add: eval_defs mem_overlapping_def)

section \<open>Properties of the exit handlers\<close>

lemmas esr_defs = ESR_ELx_ISV_def ESR_ELx_SAS_SHIFT_def ESR_ELx_SAS_def ESR_ELx_SSE_def
  ESR_ELx_SRT_SHIFT_def ESR_ELx_SRT_MASK_def ESR_ELx_EA_def ESR_ELx_CM_def ESR_ELx_S1PTW_def
  ESR_ELx_WNR_def

lemma hsr_cpu_exit: "hvf_vcpu_get_hsr (cpu_exit syn) = ucast syn"
  by (simp add: hvf_vcpu_get_hsr_def cpu_exit_def)

text \<open>
  Claim C10. Reading target register 31 yields 0 whatever the register state, and
  writing it leaves the whole vCPU state as it was. A memory-mapped I/O read whose
  syndrome is valid (no external abort, no stage-1 walk) and names register 31 as target
  ends with the state it started from, except that the program counter has advanced by
  4 and one bus read of the decoded width at the faulting address has been logged: no
  general-purpose register changes.
\<close>

theorem zero_register_rt31:
  assumes "hvf_vcpu_get_hsr cpu AND ESR_ELx_ISV \<noteq> 0"
    and "ESR_ELx_EA AND hvf_vcpu_get_hsr cpu = 0" and "ESR_ELx_S1PTW AND hvf_vcpu_get_hsr cpu = 0"
    and "hvf_vcpu_get_hsr cpu AND ESR_ELx_WNR = 0"
    and "hvf_vcpu_dabt_get_rd cpu = 31"
  shows "hvf_read_rt c 31 = 0 \<and> hvf_write_rt c 31 v = c
         \<and> hvf_handle_mmio bus data_buf cpu =
             Inr ((hvf_skip_instr cpu)\<lparr> bus_log := bus_log cpu @
                    [BusRead (physical_address (hvf_vcpu_exit_info cpu)) (hvf_vcpu_dabt_get_as cpu)] \<rparr>)"
  using assms
  by (simp add: hvf_read_rt_def hvf_write_rt_def hvf_handle_mmio_def hvf_decode_hsr_def Let_def
      hvf_skip_instr_def hvf_vcpu_get_hsr_def hvf_vcpu_dabt_get_rd_def hvf_vcpu_dabt_get_as_def)

theorem zero_register_rt31_witness:
  "hvf_vcpu_get_hsr (cpu_exit 0x915F0000) AND ESR_ELx_ISV \<noteq> 0
   \<and> ESR_ELx_EA AND hvf_vcpu_get_hsr (cpu_exit 0x915F0000) = 0
   \<and> ESR_ELx_S1PTW AND hvf_vcpu_get_hsr (cpu_exit 0x915F0000) = 0
   \<and> hvf_vcpu_get_hsr (cpu_exit 0x915F0000) AND ESR_ELx_WNR = 0
   \<and> hvf_vcpu_dabt_get_rd (cpu_exit 0x915F0000) = 31
   \<and> hvf_read_rt (cpu_exit 0x915F0000) 31 = 0
   \<and> hvf_write_rt (cpu_exit 0x915F0000) 31 7 = cpu_exit 0x915F0000
   \<and> hvf_handle_mmio bus_1234 [0xFF, 0xFF, 0xFF, 0xFF, 0xFF, 0xFF, 0xFF, 0xFF] (cpu_exit 0x915F0000) =
        Inr ((hvf_skip_instr (cpu_exit 0x915F0000))\<lparr> bus_log := bus_log (cpu_exit 0x915F0000) @
               [BusRead (physical_address (hvf_vcpu_exit_info (cpu_exit 0x915F0000)))
                        (hvf_vcpu_dabt_get_as (cpu_exit 0x915F0000))] \<rparr>)"
proof -
  have s: "hvf_vcpu_get_hsr (cpu_exit 0x915F0000) = 0x915F0000"
    by (simp add: hsr_cpu_exit)
  have h: "hvf_vcpu_get_hsr (cpu_exit 0x915F0000) AND ESR_ELx_ISV \<noteq> 0"
    "ESR_ELx_EA AND hvf_vcpu_get_hsr (cpu_exit 0x915F0000) = 0"
    "ESR_ELx_S1PTW AND hvf_vcpu_get_hsr (cpu_exit 0x915F0000) = 0"
    "hvf_vcpu_get_hsr (cpu_exit 0x915F0000) AND ESR_ELx_WNR = 0"
    "hvf_vcpu_dabt_get_rd (cpu_exit 0x915F0000) = 31"
    by (simp_all add: s esr_defs hvf_vcpu_dabt_get_rd_def)
  show ?thesis
    using zero_register_rt31[OF h, of "cpu_exit 0x915F0000" 7 bus_1234
        "[0xFF, 0xFF, 0xFF, 0xFF, 0xFF, 0xFF, 0xFF, 0xFF]"] h
    by simp
qed

lemma hsr_read16: "hvf_vcpu_get_hsr (cpu_exit 0x91400000) = 0x91400000"
  by (simp add: hsr_cpu_exit)

lemma decode_read16:
  "hvf_decode_hsr (cpu_exit 0x91400000) = Inr (False, 2, False, 0, hvf_skip_instr (cpu_exit 0x91400000))"
  by (simp add: hvf_decode_hsr_def hsr_read16 esr_defs Let_def hvf_vcpu_dabt_get_as_def
      hvf_vcpu_dabt_get_rd_def)

lemma mmio_read16:
  "hvf_handle_mmio bus_1234 [0xFF, 0xFF, 0xFF, 0xFF, 0xFF, 0xFF, 0xFF, 0xFF] (cpu_exit 0x91400000)
   = Inr (hvf_write_rt ((hvf_skip_instr (cpu_exit 0x91400000))\<lparr> bus_log := [BusRead 0x9000000 2] \<rparr>) 0
            0xFFFFFFFFFFFF1234)"
proof -
  have a: "physical_address (hvf_vcpu_exit_info (cpu_exit 0x91400000)) = 0x9000000"
    "bus_log (hvf_skip_instr (cpu_exit 0x91400000)) = []"
    by (simp_all add: cpu_exit_def hvf_skip_instr_def)
  have b: "le_word (overlay (take 2 (bus_1234 [] 0x9000000 2))
             [0xFF, 0xFF, 0xFF, 0xFF, 0xFF, 0xFF, 0xFF, 0xFF]) = 0xFFFFFFFFFFFF1234"
    by (simp add: bus_1234_def)
  have c: "hvf_vcpu_get_hsr (cpu_exit 0x91400000) AND ESR_ELx_ISV \<noteq> 0"
    by (simp add: hsr_read16 esr_defs)
  show ?thesis
    by (simp add: hvf_handle_mmio_def decode_read16 c Let_def a b)
qed

text \<open>
  Claim C1 (the code departs from it). The exit is a data abort with a valid syndrome
  for a 2-byte read into register 0, without sign extension (syndrome \<open>0x91400000\<close>);
  the device returns the bytes \<open>34 12\<close>, and the uninitialised buffer \<open>data_buf\<close> holds
  \<open>FF\<close> in every byte. \<open>hvf_handle_mmio\<close> issues one 2-byte bus read at the address and
  advances the program counter by 4, but register 0 receives \<open>0xFFFFFFFFFFFF1234\<close>:
  the six bytes above the access width are the previous content of the buffer, not the
  zero extension \<open>0x1234\<close>.
\<close>

theorem mmio_read16_not_zero_extended:
  "map_sum id (\<lambda>c. (xregs (env c) 0, pc (env c), bus_log c))
     (hvf_handle_mmio bus_1234 [0xFF, 0xFF, 0xFF, 0xFF, 0xFF, 0xFF, 0xFF, 0xFF] (cpu_exit 0x91400000))
   = Inr (0xFFFFFFFFFFFF1234, 0x40000004, [BusRead 0x9000000 2])"
  unfolding mmio_read16
  by (simp add: hvf_skip_instr_def hvf_write_rt_def cpu_exit_def env_example_def)

section \<open>Properties of the register transfer\<close>

lemma fold_index_upd:
  "fold (\<lambda>i x. x(i := g i)) xs x j = (if j \<in> set xs then g j else x j)"
  by (induction xs arbitrary: x) auto

lemma upt_32_split: "[0..<32] = [0..<30] @ [30, 31]"
proof -
  have "[0..<30 + 2] = [0..<30] @ [30..<30 + 2]" by (rule upt_add_eq_append) simp
  moreover have "[30..<30 + 2] = [30, 31::nat]" by (simp add: upt_rec)
  ultimately show ?thesis by simp
qed

text \<open>After the push, the engine's register Q20 holds vector register 30.\<close>

lemma put_simd_q20:
  "fold (\<lambda>i q. q(regno_to_hv_simd_fp_reg_type i := v i)) [0..<32] q (HV_SIMD_FP_REG_Q 20) = v 30"
  by (simp add: upt_32_split regno_to_hv_simd_fp_reg_type_def)

lemma put_simd:
  "hv_simd_fp_reg_file (hvf_fd (hvf_put_registers cpu)) =
     fold (\<lambda>i q. q(regno_to_hv_simd_fp_reg_type i := vfp_qreg (env cpu) i)) [0..<32]
       (hv_simd_fp_reg_file (hvf_fd cpu))"
  by (simp add: hvf_put_registers_def Let_def aarch64_save_sp_def)

lemma put_cpsr:
  "hv_reg_file (hvf_fd (hvf_put_registers cpu)) HV_REG_CPSR = ucast (pstate (env cpu))"
  by (simp add: hvf_put_registers_def Let_def aarch64_save_sp_def pstate_read_def)

lemma get_qreg:
  assumes "hv_reg_file (hvf_fd cpu) HV_REG_CPSR AND PSTATE_nRW = 0"
  shows "\<exists>c. hvf_get_registers cpu = Inr c \<and>
     vfp_qreg (env c) =
       fold (\<lambda>i v. v(i := hv_simd_fp_reg_file (hvf_fd cpu) (regno_to_hv_simd_fp_reg_type i)))
         [0..<32] (vfp_qreg (env cpu))"
  using assms
  by (simp add: hvf_get_registers_def Let_def vfp_set_fpcr_def vfp_set_fpsr_def
      aarch64_restore_sp_def pstate_write_def)

text \<open>
  Claim C2 (the code departs from it). In the example state vector register \<open>i\<close> holds
  the number \<open>i\<close>. After \<open>hvf_put_registers\<close> followed at once by \<open>hvf_get_registers\<close>,
  vector register 20 holds 30: \<open>regno_to_hv_simd_fp_reg_type\<close> sends index 30 to the
  engine's register Q20, so the push overwrites Q20 with register 30 and the pull reads
  it back into register 20.
\<close>

theorem push_pull_changes_q20:
  "map_sum id (\<lambda>c. vfp_qreg (env c) 20) (hvf_get_registers (hvf_put_registers (cpu_exit 0)))
     = Inr 30"
proof -
  let ?p = "hvf_put_registers (cpu_exit 0)"
  have "hv_reg_file (hvf_fd ?p) HV_REG_CPSR AND PSTATE_nRW = 0"
    by (simp add: put_cpsr cpu_exit_def env_example_def PSTATE_nRW_def)
  from get_qreg[OF this] obtain c where c: "hvf_get_registers ?p = Inr c"
    and q: "vfp_qreg (env c) =
              fold (\<lambda>i v. v(i := hv_simd_fp_reg_file (hvf_fd ?p) (regno_to_hv_simd_fp_reg_type i)))
                [0..<32] (vfp_qreg (env ?p))" by blast
  have "vfp_qreg (env c) 20 = hv_simd_fp_reg_file (hvf_fd ?p) (HV_SIMD_FP_REG_Q 20)"
    by (simp add: q fold_index_upd regno_to_hv_simd_fp_reg_type_def)
  also have "\<dots> = vfp_qreg (env (cpu_exit 0)) 30"
    by (simp add: put_simd put_simd_q20)
  also have "\<dots> = 30" by (simp add: cpu_exit_def env_example_def)
  finally show ?thesis using c by simp
qed

lemma fold_upd_pointwise:
  "fold (\<lambda>p f. f(fst p := snd p)) ps f k =
     (case map_of (rev ps) k of Some v \<Rightarrow> v | None \<Rightarrow> f k)"
  by (induction ps arbitrary: f) (auto simp: map_add_def split: option.splits)

lemma fold_upd_idem:
  "fold (\<lambda>p f. f(fst p := snd p)) ps (fold (\<lambda>p f. f(fst p := snd p)) ps f)
     = fold (\<lambda>p f. f(fst p := snd p)) ps f"
  by (rule ext) (simp add: fold_upd_pointwise split: option.splits)

lemma put_registers_alt:
  "hvf_put_registers cpu =
     cpu\<lparr> env := aarch64_save_sp (env cpu) 1,
          hvf_fd := (hvf_fd cpu)
            \<lparr> hv_reg_file := fold (\<lambda>p f. f(fst p := snd p)) (reg_writes (aarch64_save_sp (env cpu) 1))
                                (hv_reg_file (hvf_fd cpu)),
              hv_sys_reg_file := fold (\<lambda>p f. f(fst p := snd p)) (sys_writes (aarch64_save_sp (env cpu) 1))
                                (hv_sys_reg_file (hvf_fd cpu)),
              hv_simd_fp_reg_file := fold (\<lambda>p f. f(fst p := snd p)) (simd_writes (aarch64_save_sp (env cpu) 1))
                                (hv_simd_fp_reg_file (hvf_fd cpu)) \<rparr> \<rparr>"
proof -
  have x: "xregs (aarch64_save_sp e el) = xregs e" for e el by (simp add: aarch64_save_sp_def)
  show ?thesis
    by (simp add: hvf_put_registers_def Let_def reg_writes_def sys_writes_def simd_writes_def
        fold_map o_def case_prod_unfold x pstate_read_def vfp_get_fpsr_def vfp_get_fpcr_def
        aarch64_banked_spsr_index_def)
qed

lemma save_sp_idem: "aarch64_save_sp (aarch64_save_sp e el) el = aarch64_save_sp e el"
  by (simp add: aarch64_save_sp_def)

lemma put_registers_idem: "hvf_put_registers (hvf_put_registers cpu) = hvf_put_registers cpu"
  by (simp add: put_registers_alt save_sp_idem fold_upd_idem)

lemma put_registers_frame:
  "hvf_put_registers (cpu\<lparr> hvf_vcpu_dirty := d \<rparr>) = (hvf_put_registers cpu)\<lparr> hvf_vcpu_dirty := d \<rparr>"
  "hvf_put_registers (cpu\<lparr> bus_log := l \<rparr>) = (hvf_put_registers cpu)\<lparr> bus_log := l \<rparr>"
  "hvf_put_registers (hvf_inject_interrupts cpu) = hvf_inject_interrupts (hvf_put_registers cpu)"
  by (simp_all add: put_registers_alt hvf_inject_interrupts_def)

lemma get_registers_frame:
  assumes "hvf_get_registers cpu = Inr c"
  shows "hvf_fd c = hvf_fd cpu" "hvf_vcpu_exit_info c = hvf_vcpu_exit_info cpu"
    "hvf_vcpu_dirty c = hvf_vcpu_dirty cpu"
  using assms by (auto simp: hvf_get_registers_def Let_def split: if_splits)

lemma put_simd_q30:
  "fold (\<lambda>i q. q(regno_to_hv_simd_fp_reg_type i := v i)) [0..<32] q (HV_SIMD_FP_REG_Q 30)
     = q (HV_SIMD_FP_REG_Q 30)"
proof -
  have "fold (\<lambda>i q. q(regno_to_hv_simd_fp_reg_type i := v i)) xs q (HV_SIMD_FP_REG_Q 30)
          = q (HV_SIMD_FP_REG_Q 30)" for xs
    by (induction xs arbitrary: q) (simp_all add: regno_to_hv_simd_fp_reg_type_def)
  then show ?thesis .
qed

lemma fold_xreg:
  "\<forall>i\<in>set xs. i \<le> 30 \<Longrightarrow> k \<le> 30 \<Longrightarrow>
     fold (\<lambda>i r. r(regno_to_hv_xreg i := x i)) xs r (HV_REG_X k)
       = (if k \<in> set xs then x k else r (HV_REG_X k))"
  by (induction xs arbitrary: r) (auto simp: regno_to_hv_xreg_def)

text \<open>The push stores each general register in the engine's register of the same number.\<close>

lemma put_xreg:
  assumes "k < 31"
  shows "hv_reg_file (hvf_fd (hvf_put_registers cpu)) (HV_REG_X k) = xregs (env cpu) k"
proof -
  have "fold (\<lambda>i r. r(regno_to_hv_xreg i := xregs (env cpu) i)) [0..<31]
          (hv_reg_file (hvf_fd cpu)) (HV_REG_X k) = xregs (env cpu) k"
    using assms by (subst fold_xreg) auto
  then show ?thesis by (simp add: hvf_put_registers_def Let_def)
qed

lemma put_env_regs:
  "xregs (env (hvf_put_registers cpu)) = xregs (env cpu)"
  "vfp_qreg (env (hvf_put_registers cpu)) = vfp_qreg (env cpu)"
  by (simp_all add: hvf_put_registers_def Let_def aarch64_save_sp_def)

lemma before_run_regs:
  assumes "hvf_vcpu_dirty cpu"
  shows "env (hvf_vcpu_exec_before_run cpu) = env (hvf_put_registers cpu)"
    "hv_reg_file (hvf_fd (hvf_vcpu_exec_before_run cpu)) = hv_reg_file (hvf_fd (hvf_put_registers cpu))"
    "hv_simd_fp_reg_file (hvf_fd (hvf_vcpu_exec_before_run cpu))
       = hv_simd_fp_reg_file (hvf_fd (hvf_put_registers cpu))"
    "hvf_vcpu_dirty (hvf_vcpu_exec_before_run cpu) = False"
  using assms by (simp_all add: hvf_vcpu_exec_before_run_def Let_def hvf_inject_interrupts_def)

lemma after_run_hvc:
  "\<exists>c1. hvf_get_registers cpu_hvc = Inr c1
     \<and> hvf_vcpu_exec_after_run mem_one_mapping psci_none bus_1234 [] cpu_hvc
         = Inr ((hvf_put_registers (c1\<lparr> env := (env c1)\<lparr> xregs := (xregs (env c1))(0 := - 1) \<rparr> \<rparr>))
                  \<lparr> hvf_vcpu_dirty := True \<rparr>)
     \<and> vfp_qreg (env c1) 30 = 20"
proof -
  have "hv_reg_file (hvf_fd cpu_hvc) HV_REG_CPSR AND PSTATE_nRW = 0"
    by (simp add: cpu_hvc_def hw_numbered_def hw_zero_def PSTATE_nRW_def)
  from get_qreg[OF this] obtain c1 where c1: "hvf_get_registers cpu_hvc = Inr c1"
    and q: "vfp_qreg (env c1) =
              fold (\<lambda>i v. v(i := hv_simd_fp_reg_file (hvf_fd cpu_hvc) (regno_to_hv_simd_fp_reg_type i)))
                [0..<32] (vfp_qreg (env cpu_hvc))" by blast
  have q30: "vfp_qreg (env c1) 30 = 20"
    by (simp add: q fold_index_upd regno_to_hv_simd_fp_reg_type_def cpu_hvc_def hw_numbered_def)
  have r: "reason (hvf_vcpu_exit_info cpu_hvc) = HV_EXIT_REASON_EXCEPTION"
    by (simp add: cpu_hvc_def)
  have e: "ESR_ELx_EC (ucast (syndrome (hvf_vcpu_exit_info c1))) = ESR_ELx_EC_HVC64"
    unfolding get_registers_frame(2)[OF c1]
    by (simp add: cpu_hvc_def ESR_ELx_EC_def ESR_ELx_EC_HVC64_def)
  have "hvf_vcpu_exec_after_run mem_one_mapping psci_none bus_1234 [] cpu_hvc
         = Inr ((hvf_put_registers (c1\<lparr> env := (env c1)\<lparr> xregs := (xregs (env c1))(0 := - 1) \<rparr> \<rparr>))
                  \<lparr> hvf_vcpu_dirty := True \<rparr>)"
    by (simp add: hvf_vcpu_exec_after_run_def r hvf_handle_exception_def c1 e Let_def
        hvf_handle_hvc_def psci_none_def ESR_ELx_EC_HVC64_def ESR_ELx_EC_WFx_def
        ESR_ELx_EC_CP15_32_def ESR_ELx_EC_CP15_64_def ESR_ELx_EC_CP14_MR_def
        ESR_ELx_EC_CP14_LS_def ESR_ELx_EC_CP14_64_def ESR_ELx_EC_HVC32_def)
  with c1 q30 show ?thesis by blast
qed

text \<open>
  Claim C4 (the code departs from it). The vCPU of the example stops with a hypervisor
  call that is not a PSCI call; the handler sets general register 0 to \<open>-1\<close>, and the
  switch on the exit reason returns. When the next turn of the loop is about to call
  \<open>hv_vcpu_run\<close>, the dirty flag is clear and the engine's X0 holds the emulator's
  \<open>-1\<close>, but the register state has not been pushed in full: the emulator's vector
  register 30 holds 20 (pulled from the engine's Q20) while the engine's Q30 still holds
  30. \<open>regno_to_hv_simd_fp_reg_type\<close> sends index 30 to Q20 (line 797), so
  \<open>hvf_put_registers\<close> never writes Q30.
\<close>

theorem handled_exception_q30_not_pushed:
  "map_sum id
     (\<lambda>c. (hvf_vcpu_dirty (hvf_vcpu_exec_before_run c),
           xregs (env (hvf_vcpu_exec_before_run c)) 0,
           hv_reg_file (hvf_fd (hvf_vcpu_exec_before_run c)) (HV_REG_X 0),
           vfp_qreg (env (hvf_vcpu_exec_before_run c)) 30,
           hv_simd_fp_reg_file (hvf_fd (hvf_vcpu_exec_before_run c)) (HV_SIMD_FP_REG_Q 30)))
     (hvf_vcpu_exec_after_run mem_one_mapping psci_none bus_1234 [] cpu_hvc)
   = Inr (False, - 1, - 1, 20, 30)"
proof -
  from after_run_hvc obtain c1 where c1: "hvf_get_registers cpu_hvc = Inr c1"
    and ar: "hvf_vcpu_exec_after_run mem_one_mapping psci_none bus_1234 [] cpu_hvc
         = Inr ((hvf_put_registers (c1\<lparr> env := (env c1)\<lparr> xregs := (xregs (env c1))(0 := - 1) \<rparr> \<rparr>))
                  \<lparr> hvf_vcpu_dirty := True \<rparr>)"
    and q30: "vfp_qreg (env c1) 30 = 20" by blast
  let ?h = "c1\<lparr> env := (env c1)\<lparr> xregs := (xregs (env c1))(0 := - 1) \<rparr> \<rparr>"
  let ?c = "(hvf_put_registers ?h)\<lparr> hvf_vcpu_dirty := True \<rparr>"
  have d: "hvf_vcpu_dirty ?c" by simp
  have pp: "hvf_put_registers ?c = (hvf_put_registers ?h)\<lparr> hvf_vcpu_dirty := True \<rparr>"
    by (simp add: put_registers_frame put_registers_idem)
  have "hvf_fd c1 = hw_numbered"
    using get_registers_frame(1)[OF c1] by (simp add: cpu_hvc_def)
  then have hw30: "hv_simd_fp_reg_file (hvf_fd c1) (HV_SIMD_FP_REG_Q 30) = 30"
    by (simp add: hw_numbered_def)
  have 1: "hvf_vcpu_dirty (hvf_vcpu_exec_before_run ?c) = False"
    by (rule before_run_regs(4)[OF d])
  have 2: "xregs (env (hvf_vcpu_exec_before_run ?c)) 0 = - 1"
    unfolding before_run_regs(1)[OF d] pp by (simp add: put_env_regs)
  have 3: "hv_reg_file (hvf_fd (hvf_vcpu_exec_before_run ?c)) (HV_REG_X 0) = - 1"
    unfolding before_run_regs(2)[OF d] pp by (simp add: put_xreg put_env_regs)
  have 4: "vfp_qreg (env (hvf_vcpu_exec_before_run ?c)) 30 = 20"
    unfolding before_run_regs(1)[OF d] pp by (simp add: put_env_regs q30)
  have 5: "hv_simd_fp_reg_file (hvf_fd (hvf_vcpu_exec_before_run ?c)) (HV_SIMD_FP_REG_Q 30) = 30"
    unfolding before_run_regs(3)[OF d] pp by (simp add: put_simd put_simd_q30 hw30)
  show ?thesis unfolding ar by (simp add: 1 2 3 4 5)
qed

lemma fold_simd:
  "k \<noteq> 20 \<Longrightarrow> k \<noteq> 30 \<Longrightarrow>
     fold (\<lambda>i q. q(regno_to_hv_simd_fp_reg_type i := v i)) xs q (HV_SIMD_FP_REG_Q k)
       = (if k \<in> set xs then v k else q (HV_SIMD_FP_REG_Q k))"
  by (induction xs arbitrary: q) (auto simp: regno_to_hv_simd_fp_reg_type_def)

text \<open>
  Apart from vector registers 20 and 30, the push stores each vector register in the
  engine's register of the same number.
\<close>

lemma put_simd_other:
  assumes "k < 32" "k \<noteq> 20" "k \<noteq> 30"
  shows "hv_simd_fp_reg_file (hvf_fd (hvf_put_registers cpu)) (HV_SIMD_FP_REG_Q k)
           = vfp_qreg (env cpu) k"
  using assms by (simp add: put_simd fold_simd)

lemma put_pc_cpsr:
  "hv_reg_file (hvf_fd (hvf_put_registers cpu)) HV_REG_PC = pc (env cpu)"
  "pc (env (hvf_put_registers cpu)) = pc (env cpu)"
  "pstate (env (hvf_put_registers cpu)) = pstate (env cpu)"
  by (simp_all add: hvf_put_registers_def Let_def aarch64_save_sp_def)

text \<open>
  What does hold after a handled exception: at the next call of \<open>hv_vcpu_run\<close> the dirty
  flag is clear and the engine holds the emulator's general registers, program counter,
  processor state and vector registers other than 20 and 30.
\<close>

lemma handled_exception_other_registers_pushed:
  assumes "reason (hvf_vcpu_exit_info cpu) = HV_EXIT_REASON_EXCEPTION"
    and "hvf_vcpu_exec_after_run mem ps bus data_buf cpu = Inr cpu1"
  shows "\<not> hvf_vcpu_dirty (hvf_vcpu_exec_before_run cpu1)"
    and "k < 31 \<Longrightarrow> hv_reg_file (hvf_fd (hvf_vcpu_exec_before_run cpu1)) (HV_REG_X k)
                      = xregs (env (hvf_vcpu_exec_before_run cpu1)) k"
    and "hv_reg_file (hvf_fd (hvf_vcpu_exec_before_run cpu1)) HV_REG_PC
           = pc (env (hvf_vcpu_exec_before_run cpu1))"
    and "hv_reg_file (hvf_fd (hvf_vcpu_exec_before_run cpu1)) HV_REG_CPSR
           = ucast (pstate (env (hvf_vcpu_exec_before_run cpu1)))"
    and "i < 32 \<Longrightarrow> i \<noteq> 20 \<Longrightarrow> i \<noteq> 30 \<Longrightarrow>
           hv_simd_fp_reg_file (hvf_fd (hvf_vcpu_exec_before_run cpu1)) (HV_SIMD_FP_REG_Q i)
             = vfp_qreg (env (hvf_vcpu_exec_before_run cpu1)) i"
proof -
  have d: "hvf_vcpu_dirty cpu1"
    using assms by (auto simp: hvf_vcpu_exec_after_run_def split: sum.splits)
  show "\<not> hvf_vcpu_dirty (hvf_vcpu_exec_before_run cpu1)"
    by (simp add: before_run_regs(4)[OF d])
  show "hv_reg_file (hvf_fd (hvf_vcpu_exec_before_run cpu1)) (HV_REG_X k)
          = xregs (env (hvf_vcpu_exec_before_run cpu1)) k" if "k < 31"
    unfolding before_run_regs(1,2)[OF d] using that by (simp add: put_xreg put_env_regs)
  show "hv_reg_file (hvf_fd (hvf_vcpu_exec_before_run cpu1)) HV_REG_PC
           = pc (env (hvf_vcpu_exec_before_run cpu1))"
    unfolding before_run_regs(1,2)[OF d] by (simp add: put_pc_cpsr)
  show "hv_reg_file (hvf_fd (hvf_vcpu_exec_before_run cpu1)) HV_REG_CPSR
           = ucast (pstate (env (hvf_vcpu_exec_before_run cpu1)))"
    unfolding before_run_regs(1,2)[OF d] by (simp add: put_cpsr put_pc_cpsr)
  show "hv_simd_fp_reg_file (hvf_fd (hvf_vcpu_exec_before_run cpu1)) (HV_SIMD_FP_REG_Q i)
             = vfp_qreg (env (hvf_vcpu_exec_before_run cpu1)) i"
    if "i < 32" "i \<noteq> 20" "i \<noteq> 30"
    unfolding before_run_regs(1,3)[OF d] using that by (simp add: put_simd_other put_env_regs)
qed

section \<open>Properties of the inverse lookup\<close>

lemma step_skip:
  "\<not> mac_present (mac_slots s i) \<or> hva2gpa_fragment (mac_slots s i) hva len = None
   \<Longrightarrow> hva2gpa_step s hva len n i acc = acc"
  by (auto simp: hva2gpa_step_def split: prod.splits)

lemma fold_skip:
  "(\<And>i. i \<in> set xs \<Longrightarrow> \<not> mac_present (mac_slots s i) \<or> hva2gpa_fragment (mac_slots s i) hva len = None)
   \<Longrightarrow> fold (hva2gpa_step s hva len n) xs acc = acc"
  by (induction xs arbitrary: acc) (simp_all add: step_skip)

lemma step_hit:
  "mac_present (mac_slots s i) \<Longrightarrow> hva2gpa_fragment (mac_slots s i) hva len = Some (g, z)
   \<Longrightarrow> int count < n
   \<Longrightarrow> hva2gpa_step s hva len n i (count, gpa, sz) = (count + 1, gpa[count := g], sz[count := z])"
  by (simp add: hva2gpa_step_def)

lemma upt_split3:
  assumes "a < b" "b < n"
  shows "[0..<n] = [0..<a] @ a # [Suc a..<b] @ b # [Suc b..<n]"
proof -
  have "[0..<n] = [0..<a] @ [a..<n]"
    using upt_add_eq_append[of 0 a "n - a"] assms by simp
  also have "[a..<n] = a # [Suc a..<n]" using assms by (simp add: upt_conv_Cons)
  also have "[Suc a..<n] = [Suc a..<b] @ [b..<n]"
    using upt_add_eq_append[of "Suc a" b "n - b"] assms by simp
  also have "[b..<n] = b # [Suc b..<n]" using assms by (simp add: upt_conv_Cons)
  finally show ?thesis by simp
qed

lemma hva2gpa_two_hits:
  assumes ab: "a < b" "b < HVF_MAX_SLOTS"
    and pa: "mac_present (mac_slots s a)" and fa: "hva2gpa_fragment (mac_slots s a) hva len = Some (ga, za)"
    and pb: "mac_present (mac_slots s b)" and fb: "hva2gpa_fragment (mac_slots s b) hva len = Some (gb, zb)"
    and others: "\<And>j. j < HVF_MAX_SLOTS \<Longrightarrow> j \<noteq> a \<Longrightarrow> j \<noteq> b \<Longrightarrow>
        \<not> mac_present (mac_slots s j) \<or> hva2gpa_fragment (mac_slots s j) hva len = None"
    and n: "2 \<le> n"
  shows "hvf_hva2gpa s hva len n gpa sz = (2, gpa[0 := ga, 1 := gb], sz[0 := za, 1 := zb])"
proof -
  have s1: "fold (hva2gpa_step s hva len n) [0..<a] acc = acc" for acc
    using ab by (intro fold_skip others) auto
  have s2: "fold (hva2gpa_step s hva len n) [Suc a..<b] acc = acc" for acc
    using ab by (intro fold_skip others) auto
  have s3: "fold (hva2gpa_step s hva len n) [Suc b..<HVF_MAX_SLOTS] acc = acc" for acc
    using ab by (intro fold_skip others) auto
  have h1: "hva2gpa_step s hva len n a (0, gpa, sz) = (1, gpa[0 := ga], sz[0 := za])"
    using step_hit[OF pa fa, of 0 n gpa sz] n by simp
  have n1: "int (Suc 0) < n" using n by simp
  have h2: "hva2gpa_step s hva len n b (Suc 0, gpa[0 := ga], sz[0 := za])
              = (2, gpa[0 := ga, 1 := gb], sz[0 := za, 1 := zb])"
    using step_hit[OF pb fb n1, of "gpa[0 := ga]" "sz[0 := za]"] by (simp add: numeral_2_eq_2)
  show ?thesis
    unfolding hvf_hva2gpa_def upt_split3[OF ab]
    by (simp add: s1 s2 s3 h1 h2)
qed

lemma unat_sub_le: "(b::u64) \<le> a \<Longrightarrow> unat (a - b) = unat a - unat b"
  by (simp add: unat_sub)

lemma fragment_start_slot:
  assumes "unat (mac_hva m) + unat (mac_size m) < 2 ^ 64"
    and "unat (mac_hva m) \<le> unat hva" and "unat hva < unat (mac_hva m) + unat (mac_size m)"
    and "unat (mac_hva m) + unat (mac_size m) < unat hva + unat len"
  shows "hva2gpa_fragment m hva len =
     Some (mac_gpa_start m + (hva - mac_hva m), mac_size m - (hva - mac_hva m))"
proof -
  have e: "unat (mac_hva m + mac_size m) = unat (mac_hva m) + unat (mac_size m)"
    using assms(1) by (rule unat_add_nowrap)
  have le: "mac_hva m \<le> hva" using assms(2) by (simp add: word_le_nat_alt)
  have lt: "hva < mac_hva m + mac_size m" using assms(3) e by (simp add: word_less_nat_alt)
  have d: "unat (hva - mac_hva m) = unat hva - unat (mac_hva m)" using le by (rule unat_sub_le)
  have dle: "hva - mac_hva m \<le> mac_size m"
    using assms(2,3) d by (simp add: word_le_nat_alt)
  have r: "unat (mac_size m - (hva - mac_hva m)) = unat (mac_size m) - (unat hva - unat (mac_hva m))"
    using dle d by (simp add: unat_sub_le)
  have nl: "\<not> len < mac_size m - (hva - mac_hva m)"
    using assms(2,3,4) r by (simp add: word_less_nat_alt)
  show ?thesis using le lt nl by (simp add: hva2gpa_fragment_def Let_def)
qed

lemma fragment_end_slot:
  assumes "unat (mac_hva m) + unat (mac_size m) < 2 ^ 64" and "unat hva + unat len < 2 ^ 64"
    and "unat hva < unat (mac_hva m)"
    and "unat (mac_hva m) < unat hva + unat len"
    and "unat hva + unat len \<le> unat (mac_hva m) + unat (mac_size m)"
  shows "hva2gpa_fragment m hva len = Some (mac_gpa_start m, hva + len - mac_hva m)"
proof -
  have e: "unat (mac_hva m + mac_size m) = unat (mac_hva m) + unat (mac_size m)"
    using assms(1) by (rule unat_add_nowrap)
  have f: "unat (hva + len) = unat hva + unat len" using assms(2) by (rule unat_add_nowrap)
  have c1: "\<not> mac_hva m \<le> hva" using assms(3) by (simp add: word_le_nat_alt)
  have c2: "hva + len \<le> mac_hva m + mac_size m" using assms(5) e f by (simp add: word_le_nat_alt)
  have c3: "mac_hva m < hva + len" using assms(4) f by (simp add: word_less_nat_alt)
  show ?thesis using c1 c2 c3 by (simp add: hva2gpa_fragment_def Let_def)
qed

lemma fragment_miss:
  assumes "host_miss m hva len" and "unat hva + unat len < 2 ^ 64" and "len \<noteq> 0"
  shows "hva2gpa_fragment m hva len = None"
proof -
  have e: "unat (mac_hva m + mac_size m) = unat (mac_hva m) + unat (mac_size m)"
    using assms(1) by (simp add: host_miss_def unat_add_nowrap)
  have f: "unat (hva + len) = unat hva + unat len" using assms(2) by (rule unat_add_nowrap)
  have l: "0 < unat len" using assms(3) by (simp add: unat_gt_0)
  have d: "unat (mac_hva m) + unat (mac_size m) \<le> unat hva \<or> unat hva + unat len \<le> unat (mac_hva m)"
    using assms(1) by (simp add: host_miss_def)
  show ?thesis using d l
    by (auto simp: hva2gpa_fragment_def Let_def word_le_nat_alt word_less_nat_alt e f)
qed


lemma hva2gpa_adjacent_fragments:
  assumes p: "mac_present (mac_slots s i1)" "mac_present (mac_slots s i2)"
    and adj: "mac_hva (mac_slots s i2) = mac_hva (mac_slots s i1) + mac_size (mac_slots s i1)"
    and nw: "unat (mac_hva (mac_slots s i1)) + unat (mac_size (mac_slots s i1))
               + unat (mac_size (mac_slots s i2)) < 2 ^ 64"
            "unat hva + unat len < 2 ^ 64"
    and st: "unat (mac_hva (mac_slots s i1)) \<le> unat hva"
            "unat hva < unat (mac_hva (mac_slots s i1)) + unat (mac_size (mac_slots s i1))"
    and en: "unat (mac_hva (mac_slots s i2)) < unat hva + unat len"
            "unat hva + unat len \<le> unat (mac_hva (mac_slots s i2)) + unat (mac_size (mac_slots s i2))"
  shows "hva2gpa_fragment (mac_slots s i1) hva len =
           Some (mac_gpa_start (mac_slots s i1) + (hva - mac_hva (mac_slots s i1)),
                 mac_size (mac_slots s i1) - (hva - mac_hva (mac_slots s i1)))"
    and "hva2gpa_fragment (mac_slots s i2) hva len =
           Some (mac_gpa_start (mac_slots s i2), hva + len - mac_hva (mac_slots s i2))"
    and "len \<noteq> 0"
proof -
  have n1: "unat (mac_hva (mac_slots s i1)) + unat (mac_size (mac_slots s i1)) < 2 ^ 64"
    using nw(1) by simp
  have h2: "unat (mac_hva (mac_slots s i2))
              = unat (mac_hva (mac_slots s i1)) + unat (mac_size (mac_slots s i1))"
    unfolding adj using n1 by (rule unat_add_nowrap)
  have n2: "unat (mac_hva (mac_slots s i2)) + unat (mac_size (mac_slots s i2)) < 2 ^ 64"
    using nw(1) h2 by simp
  show "hva2gpa_fragment (mac_slots s i1) hva len =
           Some (mac_gpa_start (mac_slots s i1) + (hva - mac_hva (mac_slots s i1)),
                 mac_size (mac_slots s i1) - (hva - mac_hva (mac_slots s i1)))"
    using fragment_start_slot[OF n1 st] en(1) h2 by simp
  show "hva2gpa_fragment (mac_slots s i2) hva len =
           Some (mac_gpa_start (mac_slots s i2), hva + len - mac_hva (mac_slots s i2))"
    using fragment_end_slot[OF n2 nw(2) _ en] st(2) h2 by simp
  have "0 < unat len" using st(2) en(1) h2 by simp
  then show "len \<noteq> 0" by (simp add: unat_gt_0)
qed


text \<open>
  Claim C9, as amended. Let two distinct present mirror slots have adjacent host ranges
  (the second begins where the first ends, nothing wraps around), let the host range
  \<open>[hva, hva + len)\<close> begin inside the first and end inside the second, let no other
  present mirror slot meet that range, and let the output arrays have room for two
  entries. Then \<open>hvf_hva2gpa\<close> returns 2 and stores one fragment per slot, in the
  order of the slot indices (not of the host addresses). The fragment of the slot where
  the range begins ends at that slot's guest-physical end, the fragment of the slot where
  the range ends begins at that slot's guest-physical start, and the two sizes add up to
  \<open>len\<close>.
\<close>

theorem hva2gpa_two_adjacent_slots:
  assumes i: "i1 < HVF_MAX_SLOTS" "i2 < HVF_MAX_SLOTS" "i1 \<noteq> i2"
    and p: "mac_present (mac_slots s i1)" "mac_present (mac_slots s i2)"
    and adj: "mac_hva (mac_slots s i2) = mac_hva (mac_slots s i1) + mac_size (mac_slots s i1)"
    and nw: "unat (mac_hva (mac_slots s i1)) + unat (mac_size (mac_slots s i1))
               + unat (mac_size (mac_slots s i2)) < 2 ^ 64"
            "unat hva + unat len < 2 ^ 64"
    and st: "unat (mac_hva (mac_slots s i1)) \<le> unat hva"
            "unat hva < unat (mac_hva (mac_slots s i1)) + unat (mac_size (mac_slots s i1))"
    and en: "unat (mac_hva (mac_slots s i2)) < unat hva + unat len"
            "unat hva + unat len \<le> unat (mac_hva (mac_slots s i2)) + unat (mac_size (mac_slots s i2))"
    and others: "\<forall>j<HVF_MAX_SLOTS. j \<noteq> i1 \<longrightarrow> j \<noteq> i2 \<longrightarrow> mac_present (mac_slots s j)
                   \<longrightarrow> host_miss (mac_slots s j) hva len"
    and cap: "2 \<le> array_size" "2 \<le> length gpa" "2 \<le> length sz"
  shows "let g1 = mac_gpa_start (mac_slots s i1) + (hva - mac_hva (mac_slots s i1));
             z1 = mac_size (mac_slots s i1) - (hva - mac_hva (mac_slots s i1));
             g2 = mac_gpa_start (mac_slots s i2);
             z2 = hva + len - mac_hva (mac_slots s i2)
         in hvf_hva2gpa s hva len array_size gpa sz =
              (if i1 < i2 then (2, gpa[0 := g1, 1 := g2], sz[0 := z1, 1 := z2])
               else (2, gpa[0 := g2, 1 := g1], sz[0 := z2, 1 := z1]))
            \<and> z1 + z2 = len
            \<and> g1 + z1 = mac_gpa_start (mac_slots s i1) + mac_size (mac_slots s i1)
            \<and> g2 = mac_gpa_start (mac_slots s i2)"
proof -
  note fr = hva2gpa_adjacent_fragments[OF p adj nw st en]
  have miss: "\<not> mac_present (mac_slots s j) \<or> hva2gpa_fragment (mac_slots s j) hva len = None"
    if j: "j < HVF_MAX_SLOTS" "j \<noteq> i1" "j \<noteq> i2" for j
  proof (cases "mac_present (mac_slots s j)")
    case True
    with others j have "host_miss (mac_slots s j) hva len" by simp
    then have "hva2gpa_fragment (mac_slots s j) hva len = None"
      using nw(2) fr(3) by (rule fragment_miss)
    then show ?thesis ..
  next
    case False
    then show ?thesis ..
  qed
  have miss': "\<not> mac_present (mac_slots s j) \<or> hva2gpa_fragment (mac_slots s j) hva len = None"
    if "j < HVF_MAX_SLOTS" "j \<noteq> i2" "j \<noteq> i1" for j
    by (rule miss[OF that(1) that(3) that(2)])
  define g1 where "g1 = mac_gpa_start (mac_slots s i1) + (hva - mac_hva (mac_slots s i1))"
  define z1 where "z1 = mac_size (mac_slots s i1) - (hva - mac_hva (mac_slots s i1))"
  define g2 where "g2 = mac_gpa_start (mac_slots s i2)"
  define z2 where "z2 = hva + len - mac_hva (mac_slots s i2)"
  have f1: "hva2gpa_fragment (mac_slots s i1) hva len = Some (g1, z1)"
    unfolding g1_def z1_def by (rule fr(1))
  have f2: "hva2gpa_fragment (mac_slots s i2) hva len = Some (g2, z2)"
    unfolding g2_def z2_def by (rule fr(2))
  have r: "hvf_hva2gpa s hva len array_size gpa sz =
      (if i1 < i2 then (2, gpa[0 := g1, 1 := g2], sz[0 := z1, 1 := z2])
       else (2, gpa[0 := g2, 1 := g1], sz[0 := z2, 1 := z1]))"
  proof (cases "i1 < i2")
    case True
    have "hvf_hva2gpa s hva len array_size gpa sz = (2, gpa[0 := g1, 1 := g2], sz[0 := z1, 1 := z2])"
      using True i(2) p(1) f1 p(2) f2 miss cap(1) by (rule hva2gpa_two_hits)
    with True show ?thesis by (simp only: if_True)
  next
    case False
    then have lt: "i2 < i1" using i(3) by simp
    have "hvf_hva2gpa s hva len array_size gpa sz = (2, gpa[0 := g2, 1 := g1], sz[0 := z2, 1 := z1])"
      using lt i(1) p(2) f2 p(1) f1 miss' cap(1) by (rule hva2gpa_two_hits)
    with False show ?thesis by (simp only: if_False)
  qed
  have sum: "z1 + z2 = len"
    unfolding z1_def z2_def adj by simp
  have e1: "g1 + z1 = mac_gpa_start (mac_slots s i1) + mac_size (mac_slots s i1)"
    unfolding g1_def z1_def by simp
  show ?thesis
    unfolding Let_def g1_def[symmetric] z1_def[symmetric] g2_def[symmetric] z2_def[symmetric]
    using r sum e1 by (simp only: g2_def simp_thms)
qed

theorem hva2gpa_two_adjacent_slots_witness:
  "(0::nat) < HVF_MAX_SLOTS \<and> (1::nat) < HVF_MAX_SLOTS
   \<and> mac_present (mac_slots mem_two_adjacent 0) \<and> mac_present (mac_slots mem_two_adjacent 1)
   \<and> mac_hva (mac_slots mem_two_adjacent 1)
       = mac_hva (mac_slots mem_two_adjacent 0) + mac_size (mac_slots mem_two_adjacent 0)
   \<and> \<not> (\<exists>j. j < HVF_MAX_SLOTS \<and> j \<noteq> 0 \<and> j \<noteq> 1 \<and> mac_present (mac_slots mem_two_adjacent j)
              \<and> \<not> host_miss (mac_slots mem_two_adjacent j) 0x10800 0x1000)
   \<and> hvf_hva2gpa mem_two_adjacent 0x10800 0x1000 2 [0, 0] [0, 0]
       = (2, [0x1800, 0x5000], [0x800, 0x800])
   \<and> (0x800::u64) + 0x800 = 0x1000
   \<and> (0x1800::u64) + 0x800
       = mac_gpa_start (mac_slots mem_two_adjacent 0) + mac_size (mac_slots mem_two_adjacent 0)
   \<and> 0x5000 = mac_gpa_start (mac_slots mem_two_adjacent 1)"
proof -
  have i: "(0::nat) < HVF_MAX_SLOTS" "(1::nat) < HVF_MAX_SLOTS" "(0::nat) \<noteq> 1"
    by (simp_all add: HVF_MAX_SLOTS_def)
  have m0: "mac_slots mem_two_adjacent 0 =
      \<lparr> mac_present = True, mac_size = 0x1000, mac_gpa_start = 0x1000, mac_gva = 0, mac_hva = 0x10000 \<rparr>"
    by (simp add: mem_two_adjacent_def)
  have m1: "mac_slots mem_two_adjacent 1 =
      \<lparr> mac_present = True, mac_size = 0x1000, mac_gpa_start = 0x5000, mac_gva = 0, mac_hva = 0x11000 \<rparr>"
    by (simp add: mem_two_adjacent_def)
  note m1s = m1[unfolded One_nat_def]
  have p: "mac_present (mac_slots mem_two_adjacent 0)" "mac_present (mac_slots mem_two_adjacent 1)"
    by (simp_all add: m0 m1 m1s)
  have adj: "mac_hva (mac_slots mem_two_adjacent 1)
       = mac_hva (mac_slots mem_two_adjacent 0) + mac_size (mac_slots mem_two_adjacent 0)"
    by (simp add: m0 m1 m1s)
  have nw: "unat (mac_hva (mac_slots mem_two_adjacent 0)) + unat (mac_size (mac_slots mem_two_adjacent 0))
               + unat (mac_size (mac_slots mem_two_adjacent 1)) < 2 ^ 64"
    "unat (0x10800::u64) + unat (0x1000::u64) < 2 ^ 64"
    by (simp_all add: m0 m1 m1s)
  have st: "unat (mac_hva (mac_slots mem_two_adjacent 0)) \<le> unat (0x10800::u64)"
    "unat (0x10800::u64) < unat (mac_hva (mac_slots mem_two_adjacent 0))
        + unat (mac_size (mac_slots mem_two_adjacent 0))"
    by (simp_all add: m0)
  have en: "unat (mac_hva (mac_slots mem_two_adjacent 1)) < unat (0x10800::u64) + unat (0x1000::u64)"
    "unat (0x10800::u64) + unat (0x1000::u64) \<le> unat (mac_hva (mac_slots mem_two_adjacent 1))
        + unat (mac_size (mac_slots mem_two_adjacent 1))"
    by (simp_all add: m1 m1s)
  have np: "\<not> mac_present (mac_slots mem_two_adjacent j)" if "j \<noteq> 0" "j \<noteq> 1" for j
    using that by (simp add: mem_two_adjacent_def hvf_accel_init_def)
  have others: "\<forall>j<HVF_MAX_SLOTS. j \<noteq> 0 \<longrightarrow> j \<noteq> 1 \<longrightarrow> mac_present (mac_slots mem_two_adjacent j)
                   \<longrightarrow> host_miss (mac_slots mem_two_adjacent j) 0x10800 0x1000"
    using np by blast
  have cap: "(2::int) \<le> 2" "2 \<le> length [0::u64, 0]" "2 \<le> length [0::u64, 0]" by simp_all
  have ex: "\<not> (\<exists>j. j < HVF_MAX_SLOTS \<and> j \<noteq> 0 \<and> j \<noteq> 1 \<and> mac_present (mac_slots mem_two_adjacent j)
              \<and> \<not> host_miss (mac_slots mem_two_adjacent j) 0x10800 0x1000)"
    using np by blast
  have c: "hvf_hva2gpa mem_two_adjacent 0x10800 0x1000 2 [0, 0] [0, 0]
       = (2, [0x1800, 0x5000], [0x800, 0x800])"
    using hva2gpa_two_adjacent_slots[OF i p adj nw st en others cap]
    by (simp add: m0 m1 m1s Let_def)
  show ?thesis
    using i(1,2) p adj ex c by (simp add: m0 m1 m1s)
qed

lemma mem_two_reversed_result:
  "hvf_hva2gpa mem_two_reversed 0x10800 0x1000 2 [0, 0] [0, 0] = (2, [0x5000, 0x1800], [0x800, 0x800])"
proof -
  have a: "(0::nat) < 1" "(1::nat) < HVF_MAX_SLOTS" by (simp_all add: HVF_MAX_SLOTS_def)
  have p: "mac_present (mac_slots mem_two_reversed 0)" "mac_present (mac_slots mem_two_reversed 1)"
    by (simp_all add: mem_two_reversed_def hvf_accel_init_def)
  have f0: "hva2gpa_fragment (mac_slots mem_two_reversed 0) 0x10800 0x1000 = Some (0x5000, 0x800)"
    by (simp add: mem_two_reversed_def hvf_accel_init_def hva2gpa_fragment_def)
  have f1: "hva2gpa_fragment (mac_slots mem_two_reversed 1) 0x10800 0x1000 = Some (0x1800, 0x800)"
    by (simp add: mem_two_reversed_def hvf_accel_init_def hva2gpa_fragment_def)
  have o: "\<not> mac_present (mac_slots mem_two_reversed j)
            \<or> hva2gpa_fragment (mac_slots mem_two_reversed j) 0x10800 0x1000 = None"
    if "j \<noteq> 0" "j \<noteq> 1" for j
    using that by (simp add: mem_two_reversed_def hvf_accel_init_def)
  show ?thesis
    using hva2gpa_two_hits[OF a p(1) f0 p(2) f1 o, of 2 "[0, 0]" "[0, 0]"] by simp
qed

text \<open>
  The claim as stated fails when the slot where the range ends has the smaller index:
  here the host range \<open>[0x10800, 0x11800)\<close> begins strictly inside slot 1 and ends
  strictly inside slot 0, whose host range follows that of slot 1. The first fragment
  reported is the one of slot 0, so its end \<open>0x5800\<close> is not the guest-physical end
  \<open>0x2000\<close> of the slot where the range begins, and the second fragment does not begin
  at the guest-physical start \<open>0x5000\<close> of the slot where the range ends.
\<close>

theorem hva2gpa_fragment_order_counterexample:
  "mac_present (mac_slots mem_two_reversed 1) \<and> mac_present (mac_slots mem_two_reversed 0)
   \<and> mac_hva (mac_slots mem_two_reversed 0)
       = mac_hva (mac_slots mem_two_reversed 1) + mac_size (mac_slots mem_two_reversed 1)
   \<and> mac_hva (mac_slots mem_two_reversed 1) < 0x10800
   \<and> 0x10800 < mac_hva (mac_slots mem_two_reversed 1) + mac_size (mac_slots mem_two_reversed 1)
   \<and> mac_hva (mac_slots mem_two_reversed 0) < 0x10800 + 0x1000
   \<and> 0x10800 + 0x1000 < mac_hva (mac_slots mem_two_reversed 0) + mac_size (mac_slots mem_two_reversed 0)
   \<and> hvf_hva2gpa mem_two_reversed 0x10800 0x1000 2 [0, 0] [0, 0]
       = (2, [0x5000, 0x1800], [0x800, 0x800])
   \<and> 0x5000 + 0x800 \<noteq> mac_gpa_start (mac_slots mem_two_reversed 1)
                          + mac_size (mac_slots mem_two_reversed 1)
   \<and> 0x1800 \<noteq> mac_gpa_start (mac_slots mem_two_reversed 0)"
  by (simp add: mem_two_reversed_result) (simp add: mem_two_reversed_def hvf_accel_init_def)

section \<open>The slot table along a run of operations\<close>

lemma set_memory_frame:
  assumes "hvf_set_memory_with_flags_locked hv s m fl = Inr (r, s')"
  shows "slots s' = slots s \<and> num_slots s' = num_slots s \<and> r = 0"
  using assms
  by (auto simp: hvf_set_memory_with_flags_locked_def hv_checked_def Let_def
      split: if_splits sum.splits)

lemma next_free_lt: "hvf_next_free_slot s = Some f \<Longrightarrow> f < num_slots s"
  by (auto simp: hvf_next_free_slot_def find_Some_iff split: option.splits if_splits)

lemma inv_cong:
  "slots s' = slots s \<Longrightarrow> num_slots s' = num_slots s \<Longrightarrow> slot_table_inv s' = slot_table_inv s"
  by (simp add: slot_table_inv_def slots_disjoint_def slots_in_range_def)

lemma inv_free:
  assumes "slot_table_inv s"
  shows "slot_table_inv (s\<lparr> slots := (slots s)(m := (slots s m)\<lparr> slot_size := 0 \<rparr>) \<rparr>)"
  using assms by (simp add: slot_table_inv_def slots_disjoint_def slots_in_range_def)

lemma ranges_disjoint_sym: "ranges_disjoint a x b y \<longleftrightarrow> ranges_disjoint b y a x"
  by (auto simp: ranges_disjoint_def)

lemma inv_put:
  assumes inv: "slot_table_inv s"
    and ok: "slot_size sl \<noteq> 0 \<longrightarrow> range_ok (slot_start sl) (slot_size sl)"
    and dj: "\<And>j. j < num_slots s \<Longrightarrow> j \<noteq> f \<Longrightarrow> slot_size (slots s j) \<noteq> 0 \<Longrightarrow>
               ranges_disjoint (slot_start sl) (slot_size sl) (slot_start (slots s j)) (slot_size (slots s j))"
  shows "slot_table_inv (s\<lparr> slots := (slots s)(f := sl) \<rparr>)"
proof -
  have d: "slots_disjoint (s\<lparr> slots := (slots s)(f := sl) \<rparr>)"
    unfolding slots_disjoint_def
  proof (intro allI impI)
    fix i j
    assume a: "i < num_slots (s\<lparr> slots := (slots s)(f := sl) \<rparr>)"
      "j < num_slots (s\<lparr> slots := (slots s)(f := sl) \<rparr>)" "i \<noteq> j"
      "slot_size (slots (s\<lparr> slots := (slots s)(f := sl) \<rparr>) i) \<noteq> 0"
      "slot_size (slots (s\<lparr> slots := (slots s)(f := sl) \<rparr>) j) \<noteq> 0"
    show "ranges_disjoint (slot_start (slots (s\<lparr> slots := (slots s)(f := sl) \<rparr>) i))
            (slot_size (slots (s\<lparr> slots := (slots s)(f := sl) \<rparr>) i))
            (slot_start (slots (s\<lparr> slots := (slots s)(f := sl) \<rparr>) j))
            (slot_size (slots (s\<lparr> slots := (slots s)(f := sl) \<rparr>) j))"
    proof (cases "i = f")
      case True
      then show ?thesis using a dj[of j] by simp
    next
      case nf: False
      show ?thesis
      proof (cases "j = f")
        case True
        then show ?thesis using a nf dj[of i] by (simp add: ranges_disjoint_sym)
      next
        case False
        then show ?thesis using a nf inv by (simp add: slot_table_inv_def slots_disjoint_def)
      qed
    qed
  qed
  have r: "slots_in_range (s\<lparr> slots := (slots s)(f := sl) \<rparr>)"
    using inv ok by (simp add: slot_table_inv_def slots_in_range_def)
  show ?thesis using d r by (simp add: slot_table_inv_def)
qed

lemma no_overlap_disjoint:
  assumes inv: "slot_table_inv s" and rq: "range_ok gpa sz"
    and none: "hvf_find_overlap_slot s gpa (gpa + sz) = None"
    and j: "j < num_slots s" "slot_size (slots s j) \<noteq> 0"
  shows "ranges_disjoint gpa sz (slot_start (slots s j)) (slot_size (slots s j))"
proof -
  have rj: "range_ok (slot_start (slots s j)) (slot_size (slots s j))"
    using inv j by (simp add: slot_table_inv_def slots_in_range_def)
  have "\<not> slot_overlaps (slots s j) gpa (gpa + sz)"
    using none j by (simp add: find_overlap_None_iff)
  then show ?thesis using rj rq j by (simp add: slot_overlaps_nat)
qed

lemma map_safe_claim_inv:
  assumes inv: "slot_table_inv s"
    and ok: "sz \<noteq> 0 \<longrightarrow> range_ok gpa sz"
    and dj: "\<And>j. j < num_slots s \<Longrightarrow> slot_size (slots s j) \<noteq> 0 \<Longrightarrow>
               ranges_disjoint gpa sz (slot_start (slots s j)) (slot_size (slots s j))"
    and res: "hvf_map_safe_claim hv s hva gpa sz fl = Inr (r, s')"
  shows "slot_table_inv s'"
proof -
  from res obtain f where f: "hvf_next_free_slot s = Some f"
    and sm: "hvf_set_memory_with_flags_locked hv
                 (s\<lparr> slots := (slots s)(f := (slots s f)
                        \<lparr> slot_mem := hva, slot_start := gpa, slot_size := sz \<rparr>) \<rparr>) f fl = Inr (r, s')"
    by (auto simp: hvf_map_safe_claim_def split: option.splits if_splits)
  let ?s1 = "s\<lparr> slots := (slots s)(f := (slots s f)\<lparr> slot_mem := hva, slot_start := gpa, slot_size := sz \<rparr>) \<rparr>"
  have "slot_table_inv ?s1"
    using inv ok dj by (intro inv_put) simp_all
  moreover have "slots s' = slots ?s1" "num_slots s' = num_slots ?s1"
    using set_memory_frame[OF sm] by simp_all
  ultimately show ?thesis using inv_cong by blast
qed

lemma map_safe_inv:
  assumes inv: "slot_table_inv s" and rq: "range_ok gpa sz"
    and res: "hvf_map_safe hv s hva gpa sz fl = Inr (r, s')"
  shows "slot_table_inv s'"
proof (cases "hvf_find_overlap_slot s gpa (gpa + sz)")
  case None
  then have c: "hvf_map_safe_claim hv s hva gpa sz fl = Inr (r, s')"
    using res by (simp add: hvf_map_safe_def)
  show ?thesis
    using inv rq no_overlap_disjoint[OF inv rq None] by (intro map_safe_claim_inv[OF inv _ _ c]) simp_all
next
  case (Some m)
  have mn: "m < num_slots s" and om: "slot_overlaps (slots s m) gpa (gpa + sz)"
    using Some by (simp_all add: find_overlap_Some_iff)
  have am: "slot_size (slots s m) \<noteq> 0" using om by (simp add: slot_overlaps_def)
  show ?thesis
  proof (cases "slot_mem (slots s m) = hva \<and> slot_start (slots s m) = gpa \<and> slot_size (slots s m) = sz")
    case True
    then have "s' = s" using res Some by (simp add: hvf_map_safe_def)
    then show ?thesis using inv by simp
  next
    case False
    then have ex: "slot_start (slots s m) = gpa" "slot_size (slots s m) = sz"
      using res Some by (auto simp: hvf_map_safe_def split: if_splits)
    let ?s0 = "s\<lparr> slots := (slots s)(m := (slots s m)\<lparr> slot_size := 0 \<rparr>) \<rparr>"
    from res Some False ex obtain r1 s1 where
      rel: "hvf_set_memory_with_flags_locked hv ?s0 m 0 = Inr (r1, s1)"
      and c: "hvf_map_safe_claim hv s1 hva gpa sz fl = Inr (r, s')"
      by (auto simp: hvf_map_safe_def split: sum.splits)
    have fr: "slots s1 = slots ?s0" "num_slots s1 = num_slots ?s0"
      using set_memory_frame[OF rel] by simp_all
    have i1: "slot_table_inv s1" using inv_free[OF inv, of m] inv_cong[OF fr] by simp
    have dj: "ranges_disjoint gpa sz (slot_start (slots s1 j)) (slot_size (slots s1 j))"
      if "j < num_slots s1" "slot_size (slots s1 j) \<noteq> 0" for j
    proof -
      have jm: "j \<noteq> m" using that fr by auto
      then have "slots s1 j = slots s j" using fr by simp
      moreover have "ranges_disjoint (slot_start (slots s m)) (slot_size (slots s m))
                       (slot_start (slots s j)) (slot_size (slots s j))"
        using inv mn am jm that fr by (simp add: slot_table_inv_def slots_disjoint_def)
      ultimately show ?thesis using ex by simp
    qed
    show ?thesis using rq dj by (intro map_safe_claim_inv[OF i1 _ _ c]) simp_all
  qed
qed

lemma unmap_safe_inv:
  assumes inv: "slot_table_inv s" and res: "hvf_unmap_safe hv s gpa sz = Inr (r, s')"
  shows "slot_table_inv s'"
proof (cases "hvf_find_overlap_slot s gpa (gpa + sz)")
  case None
  then have "s' = s" using res by (simp add: hvf_unmap_safe_def)
  then show ?thesis using inv by simp
next
  case (Some m)
  let ?s0 = "s\<lparr> slots := (slots s)(m := (slots s m)\<lparr> slot_size := 0 \<rparr>) \<rparr>"
  have rel: "hvf_set_memory_with_flags_locked hv ?s0 m 0 = Inr (r, s')"
    using res Some by (auto simp: hvf_unmap_safe_def split: if_splits)
  have fr: "slots s' = slots ?s0" "num_slots s' = num_slots ?s0"
    using set_memory_frame[OF rel] by simp_all
  show ?thesis using inv_free[OF inv, of m] inv_cong[OF fr] by simp
qed

lemma set_phys_mem_inv:
  assumes inv: "slot_table_inv s"
    and adm: "add \<longrightarrow> \<not> is_ram sec \<or> is_user_backed sec
                  \<or> (range_ok (offset_within_address_space sec) (section_size sec)
                      \<and> at_most_one_overlap s (offset_within_address_space sec) (section_size sec))"
    and res: "hvf_set_phys_mem hv s sec add = Inr s'"
  shows "slot_table_inv s'"
proof (cases "\<not> is_ram sec \<or> is_user_backed sec")
  case True
  then have "s' = s" using res by (auto simp: hvf_set_phys_mem_def split: if_splits)
  then show ?thesis using inv by simp
next
  case ram: False
  let ?gpa = "offset_within_address_space sec" and ?sz = "section_size sec"
  let ?mem = "hvf_find_overlap_slot s ?gpa (?gpa + ?sz)"
  show ?thesis
  proof (cases "case ?mem of None \<Rightarrow> False
              | Some m \<Rightarrow> add \<and> slot_size (slots s m) = ?sz \<and> slot_start (slots s m) = ?gpa
                           \<and> slot_mem (slots s m) = ram_ptr sec")
    case True
    then have "s' = s" using res ram by (simp add: hvf_set_phys_mem_def Let_def)
    then show ?thesis using inv by simp
  next
    case ns: False
    \<comment> \<open>the table after the reset of the overlapping slot\<close>
    obtain s1 where
      reset: "(case ?mem of None \<Rightarrow> Inr s
               | Some m \<Rightarrow>
                   (case hvf_set_memory hv (s\<lparr> slots := (slots s)(m := (slots s m)\<lparr> slot_size := 0 \<rparr>) \<rparr>) m of
                      Inl e \<Rightarrow> Inl e
                    | Inr (r, s1) \<Rightarrow> if r \<noteq> 0 then Inl (ResetFailed, s1) else Inr s1)) = Inr s1"
      and rest: "(if \<not> add then Inr s1
                 else
                   (case hvf_next_free_slot s1 of
                      None \<Rightarrow> Inl (NoFreeSlots, s1)
                    | Some m \<Rightarrow>
                        (case hvf_set_memory hv
                                (s1\<lparr> slots := (slots s1)(m := (slots s1 m)
                                       \<lparr> slot_size := ?sz, slot_mem := ram_ptr sec, slot_start := ?gpa \<rparr>) \<rparr>) m of
                           Inl e \<Rightarrow> Inl e
                         | Inr (r, s2) \<Rightarrow> if r \<noteq> 0 then Inl (RegisterFailed, s2) else Inr s2))) = Inr s'"
      using res ram ns by (simp add: hvf_set_phys_mem_def Let_def split: sum.splits)
    have s1: "num_slots s1 = num_slots s
              \<and> (case ?mem of None \<Rightarrow> slots s1 = slots s
                  | Some m \<Rightarrow> slots s1 = (slots s)(m := (slots s m)\<lparr> slot_size := 0 \<rparr>))"
    proof (cases ?mem)
      case None
      then show ?thesis using reset by simp
    next
      case (Some m)
      then obtain r where "hvf_set_memory_with_flags_locked hv
          (s\<lparr> slots := (slots s)(m := (slots s m)\<lparr> slot_size := 0 \<rparr>) \<rparr>) m HV_MEMORY_RWX = Inr (r, s1)"
        using reset by (auto simp: hvf_set_memory_def split: sum.splits if_splits)
      from set_memory_frame[OF this] show ?thesis using Some by simp
    qed
    have i1: "slot_table_inv s1"
    proof (cases ?mem)
      case None
      then show ?thesis using s1 inv inv_cong[of s1 s] by simp
    next
      case (Some m)
      then show ?thesis
        using s1 inv_free[OF inv, of m]
          inv_cong[of s1 "s\<lparr> slots := (slots s)(m := (slots s m)\<lparr> slot_size := 0 \<rparr>) \<rparr>"] by simp
    qed
    show ?thesis
    proof (cases add)
      case False
      then have "s' = s1" using rest by simp
      then show ?thesis using i1 by simp
    next
      case True
      then obtain f r where f: "hvf_next_free_slot s1 = Some f"
        and sm: "hvf_set_memory_with_flags_locked hv
                   (s1\<lparr> slots := (slots s1)(f := (slots s1 f)
                       \<lparr> slot_size := ?sz, slot_mem := ram_ptr sec, slot_start := ?gpa \<rparr>) \<rparr>) f HV_MEMORY_RWX
                 = Inr (r, s')"
        using rest by (auto simp: hvf_set_memory_def split: option.splits sum.splits if_splits)
      let ?sl = "(slots s1 f)\<lparr> slot_size := ?sz, slot_mem := ram_ptr sec, slot_start := ?gpa \<rparr>"
      let ?s2 = "s1\<lparr> slots := (slots s1)(f := ?sl) \<rparr>"
      have rq: "range_ok ?gpa ?sz" and amo: "at_most_one_overlap s ?gpa ?sz"
        using adm True ram by simp_all
      have dj: "ranges_disjoint ?gpa ?sz (slot_start (slots s1 j)) (slot_size (slots s1 j))"
        if j: "j < num_slots s1" "slot_size (slots s1 j) \<noteq> 0" for j
      proof (cases ?mem)
        case None
        then have "slots s1 = slots s" using s1 by simp
        then show ?thesis using no_overlap_disjoint[OF inv rq None, of j] j s1 by simp
      next
        case (Some m)
        then have sl: "slots s1 = (slots s)(m := (slots s m)\<lparr> slot_size := 0 \<rparr>)" using s1 by simp
        have jm: "j \<noteq> m" using j sl by auto
        have ej: "slots s1 j = slots s j" using jm sl by simp
        have mn: "m < num_slots s" and om: "slot_overlaps (slots s m) ?gpa (?gpa + ?sz)"
          using Some by (simp_all add: find_overlap_Some_iff)
        have am: "slot_size (slots s m) \<noteq> 0" using om by (simp add: slot_overlaps_def)
        have rm: "range_ok (slot_start (slots s m)) (slot_size (slots s m))"
          using inv mn am by (simp add: slot_table_inv_def slots_in_range_def)
        have nd: "\<not> ranges_disjoint ?gpa ?sz (slot_start (slots s m)) (slot_size (slots s m))"
          using om rm rq by (simp add: slot_overlaps_nat)
        have "ranges_disjoint ?gpa ?sz (slot_start (slots s m)) (slot_size (slots s m))
              \<or> ranges_disjoint ?gpa ?sz (slot_start (slots s j)) (slot_size (slots s j))"
          using amo mn j jm am ej s1 by (simp add: at_most_one_overlap_def)
        with nd show ?thesis using ej by simp
      qed
      have "slot_table_inv ?s2"
        using rq dj by (intro inv_put[OF i1]) simp_all
      moreover have "slots s' = slots ?s2" "num_slots s' = num_slots ?s2"
        using set_memory_frame[OF sm] by simp_all
      ultimately show ?thesis using inv_cong by blast
    qed
  qed
qed

lemma apply_op_inv:
  assumes "slot_table_inv s" "op_admissible s op" "apply_op hv s op = Inr s'"
  shows "slot_table_inv s'"
proof (cases op)
  case (Map hva gpa sz fl)
  then obtain r where "hvf_map_safe hv s hva gpa sz fl = Inr (r, s')"
    using assms(3) by (cases "hvf_map_safe hv s hva gpa sz fl") auto
  then show ?thesis using assms(1,2) Map map_safe_inv by simp
next
  case (Unmap gpa sz)
  then obtain r where "hvf_unmap_safe hv s gpa sz = Inr (r, s')"
    using assms(3) by (cases "hvf_unmap_safe hv s gpa sz") auto
  then show ?thesis using assms(1) unmap_safe_inv by simp
next
  case (RegionAdd sec)
  then show ?thesis using assms set_phys_mem_inv[of s True sec hv s'] by simp
next
  case (RegionDel sec)
  then show ?thesis using assms set_phys_mem_inv[of s False sec hv s'] by simp
qed

lemma run_ops_inv:
  "slot_table_inv s \<Longrightarrow> ops_admissible hv s ops \<Longrightarrow> run_ops hv s ops = Inr s' \<Longrightarrow> slot_table_inv s'"
proof (induction ops arbitrary: s)
  case Nil
  then show ?case by simp
next
  case (Cons op ops)
  from Cons.prems(3) obtain s1 where a: "apply_op hv s op = Inr s1" and r: "run_ops hv s1 ops = Inr s'"
    by (auto split: sum.splits)
  have "slot_table_inv s1" using apply_op_inv[OF Cons.prems(1) _ a] Cons.prems(2) by simp
  moreover have "ops_admissible hv s1 ops" using Cons.prems(2) a by simp
  ultimately show ?case using Cons.IH r by blast
qed

lemma init_inv: "slot_table_inv hvf_accel_init"
  by (simp add: slot_table_inv_def slots_disjoint_def slots_in_range_def hvf_accel_init_def)

text \<open>
  Claim C3, as amended. Start from the initial all-free table and run any sequence of
  map, unmap, region-add and region-remove operations that returns, where every mapped
  range ends below \<open>2^64\<close> and every section that the listener adds and that
  \<open>hvf_set_phys_mem\<close> acts on (RAM, not user backed) ends below \<open>2^64\<close> and meets at
  most one active slot of the table it is added to. Then the active slots of the
  resulting table are pairwise disjoint.
\<close>

theorem reachable_slots_disjoint:
  assumes "ops_admissible hv hvf_accel_init ops" and "run_ops hv hvf_accel_init ops = Inr s"
  shows "slots_disjoint s"
  using run_ops_inv[OF init_inv assms] by (simp add: slot_table_inv_def)

text \<open>
  An instance: the run with a mapping, two RAM sections of which the second replaces the
  first (the reset of the overlapping slot), and an I/O section over both slots; it ends
  with two active slots.
\<close>

lemma run_ops_regions: "run_ops hv_always_ok hvf_accel_init ops_regions = Inr mem_after_regions"
  by (simp add: eval_defs ops_regions_def sec_c_def sec_io_def sec_d_def mem_after_regions_def
      fun_upd_twist)

lemma ops_regions_admissible: "ops_admissible hv_always_ok hvf_accel_init ops_regions"
  by (simp add: eval_defs ops_regions_def sec_c_def sec_io_def sec_d_def range_ok_def
      at_most_one_overlap_def ranges_disjoint_def)

theorem reachable_slots_disjoint_witness:
  "ops_admissible hv_always_ok hvf_accel_init ops_regions
   \<and> run_ops hv_always_ok hvf_accel_init ops_regions = Inr mem_after_regions
   \<and> slot_size (slots mem_after_regions 0) \<noteq> 0 \<and> slot_size (slots mem_after_regions 1) \<noteq> 0
   \<and> slots_disjoint mem_after_regions"
proof -
  have a: "slot_size (slots mem_after_regions 0) \<noteq> 0" "slot_size (slots mem_after_regions 1) \<noteq> 0"
    by (simp_all add: mem_after_regions_def hvf_accel_init_def)
  show ?thesis
    using reachable_slots_disjoint[OF ops_regions_admissible run_ops_regions]
      ops_regions_admissible run_ops_regions a
    by simp
qed

lemma run_three_adds:
  "run_ops hv_always_ok hvf_accel_init [RegionAdd sec_a, RegionAdd sec_b, RegionAdd sec_ab]
     = Inr mem_overlapping"
  by (simp add: eval_defs sec_a_def sec_b_def sec_ab_def mem_overlapping_def fun_upd_twist)

lemma mem_overlapping_not_disjoint: "\<not> slots_disjoint mem_overlapping"
proof
  assume a: "slots_disjoint mem_overlapping"
  have n: "0 < num_slots mem_overlapping" "1 < num_slots mem_overlapping" "(0::nat) \<noteq> 1"
    "slot_size (slots mem_overlapping 0) \<noteq> 0" "slot_size (slots mem_overlapping 1) \<noteq> 0"
    by (simp_all add: mem_overlapping_def hvf_accel_init_def HVF_MAX_SLOTS_def)
  from a[unfolded slots_disjoint_def, rule_format, OF n]
  show False
    by (simp add: mem_overlapping_def hvf_accel_init_def ranges_disjoint_def)
qed

text \<open>
  The claim as stated fails for region-add: \<open>hvf_set_phys_mem\<close> resets only the first
  slot that overlaps the new section. After the sections \<open>[0x1000, 0x2000)\<close> and
  \<open>[0x2000, 0x3000)\<close>, adding \<open>[0x1000, 0x3000)\<close> resets slot 0 and stores the new
  range there, while slot 1 still holds \<open>[0x2000, 0x3000)\<close>.
\<close>

theorem region_add_overlap_counterexample:
  "map_sum fst slots_disjoint
     (run_ops hv_always_ok hvf_accel_init [RegionAdd sec_a, RegionAdd sec_b, RegionAdd sec_ab])
   = Inr False"
  unfolding run_three_adds by (simp add: mem_overlapping_not_disjoint)

section \<open>The lookup against the mappings of the specification\<close>

lemma set_memory_mirror:
  assumes "hvf_set_memory_with_flags_locked hv s m fl = Inr (r, s')"
  shows "mac_slots s' = (mac_slots s)(slot_id (slots s m) :=
           (if slot_size (slots s m) = 0
            then (if mac_present (mac_slots s (slot_id (slots s m)))
                     \<and> mac_size (mac_slots s (slot_id (slots s m))) \<noteq> 0
                  then (mac_slots s (slot_id (slots s m)))\<lparr> mac_present := False \<rparr>
                  else mac_slots s (slot_id (slots s m)))
            else (mac_slots s (slot_id (slots s m)))
                   \<lparr> mac_present := True, mac_size := slot_size (slots s m),
                     mac_gpa_start := slot_start (slots s m), mac_hva := slot_mem (slots s m) \<rparr>))"
  using assms
  by (auto simp: hvf_set_memory_with_flags_locked_def hv_checked_def Let_def
      split: if_splits sum.splits)

text \<open>releasing an active slot\<close>
lemma release_mirror_inv:
  assumes inv: "mirror_inv s" and m: "m < num_slots s" "slot_size (slots s m) \<noteq> 0"
    and res: "hvf_set_memory_with_flags_locked hv
                (s\<lparr> slots := (slots s)(m := (slots s m)\<lparr> slot_size := 0 \<rparr>) \<rparr>) m fl = Inr (r, s1)"
  shows "mirror_inv s1"
proof -
  let ?s0 = "s\<lparr> slots := (slots s)(m := (slots s m)\<lparr> slot_size := 0 \<rparr>) \<rparr>"
  have fr: "slots s1 = slots ?s0" "num_slots s1 = num_slots s"
    using set_memory_frame[OF res] by simp_all
  have id: "slot_id (slots s m) = m" using inv m by (simp add: mirror_inv_def slot_ids_ok_def)
  have pm: "mac_present (mac_slots s m)" "mac_size (mac_slots s m) \<noteq> 0"
    using inv m by (auto simp: mirror_inv_def mirror_ok_def)
  have mac: "mac_slots s1 = (mac_slots s)(m := (mac_slots s m)\<lparr> mac_present := False \<rparr>)"
    using set_memory_mirror[OF res] id pm by simp
  have ids: "slot_ids_ok s1"
    using inv fr by (simp add: mirror_inv_def slot_ids_ok_def)
  have mo: "mirror_ok s1"
    using inv fr mac unfolding mirror_inv_def mirror_ok_def by auto
  show ?thesis using ids mo inv fr by (simp add: mirror_inv_def)
qed

text \<open>filling a free slot\<close>
lemma commit_mirror_inv:
  assumes inv: "mirror_inv s" and f: "f < num_slots s" "slot_size (slots s f) = 0"
    and sl: "slot_id sl = f"
    and res: "hvf_set_memory_with_flags_locked hv (s\<lparr> slots := (slots s)(f := sl) \<rparr>) f fl = Inr (r, s')"
  shows "mirror_inv s'"
proof -
  let ?s0 = "s\<lparr> slots := (slots s)(f := sl) \<rparr>"
  have fr: "slots s' = slots ?s0" "num_slots s' = num_slots s"
    using set_memory_frame[OF res] by simp_all
  have np: "\<not> mac_present (mac_slots s f)"
    using inv f by (auto simp: mirror_inv_def mirror_ok_def)
  have mac: "mac_slots s' = (mac_slots s)(f :=
           (if slot_size sl = 0 then mac_slots s f
            else (mac_slots s f)\<lparr> mac_present := True, mac_size := slot_size sl,
                     mac_gpa_start := slot_start sl, mac_hva := slot_mem sl \<rparr>))"
    using set_memory_mirror[OF res] sl np by simp
  have ids: "slot_ids_ok s'"
    using inv fr sl by (simp add: mirror_inv_def slot_ids_ok_def)
  have mo: "mirror_ok s'"
    using inv fr mac np f unfolding mirror_inv_def mirror_ok_def by auto
  show ?thesis using ids mo inv fr by (simp add: mirror_inv_def)
qed

lemma next_free_free:
  assumes "hvf_next_free_slot s = Some f" "slot_size (slots s f) = 0"
  shows "f < num_slots s"
  using assms(1) by (rule next_free_lt)

lemma triple_unique:
  assumes inv: "slot_table_inv s"
    and i: "i < num_slots s" "slot_size (slots s i) \<noteq> 0"
    and j: "j < num_slots s" "slot_size (slots s j) \<noteq> 0"
    and eq: "slot_start (slots s i) = slot_start (slots s j)" "slot_size (slots s i) = slot_size (slots s j)"
  shows "i = j"
proof (rule ccontr)
  assume "i \<noteq> j"
  then have "ranges_disjoint (slot_start (slots s i)) (slot_size (slots s i))
               (slot_start (slots s j)) (slot_size (slots s j))"
    using inv i j by (simp add: slot_table_inv_def slots_disjoint_def)
  moreover have "0 < unat (slot_size (slots s j))" using j by (simp add: unat_gt_0)
  ultimately show False using eq by (simp add: ranges_disjoint_def)
qed

lemma triples_free:
  assumes inv: "slot_table_inv s" and m: "m < num_slots s" "slot_size (slots s m) \<noteq> 0"
  shows "slot_triples (s\<lparr> slots := (slots s)(m := (slots s m)\<lparr> slot_size := 0 \<rparr>) \<rparr>)
           = {t \<in> slot_triples s. \<not> (fst t = slot_start (slots s m) \<and> fst (snd t) = slot_size (slots s m))}"
    (is "?L = ?R")
proof (rule set_eqI)
  fix t
  show "t \<in> ?L \<longleftrightarrow> t \<in> ?R"
  proof
    assume "t \<in> ?L"
    then obtain i where i: "i < num_slots s" "i \<noteq> m" "slot_size (slots s i) \<noteq> 0"
      and t: "t = (slot_start (slots s i), slot_size (slots s i), slot_mem (slots s i))"
      by (auto simp: slot_triples_def split: if_splits)
    have "\<not> (slot_start (slots s i) = slot_start (slots s m) \<and> slot_size (slots s i) = slot_size (slots s m))"
      using triple_unique[OF inv i(1,3) m] i(2) by blast
    then show "t \<in> ?R" using i t by (auto simp: slot_triples_def)
  next
    assume "t \<in> ?R"
    then obtain i where i: "i < num_slots s" "slot_size (slots s i) \<noteq> 0"
      and t: "t = (slot_start (slots s i), slot_size (slots s i), slot_mem (slots s i))"
      and ne: "\<not> (fst t = slot_start (slots s m) \<and> fst (snd t) = slot_size (slots s m))"
      by (auto simp: slot_triples_def)
    have "i \<noteq> m" using ne t by auto
    then show "t \<in> ?L" using i t by (auto simp: slot_triples_def intro!: image_eqI[where x = i])
  qed
qed

lemma triples_put:
  assumes f: "f < num_slots s" "slot_size (slots s f) = 0"
  shows "slot_triples (s\<lparr> slots := (slots s)(f := sl) \<rparr>)
           = (if slot_size sl = 0 then slot_triples s
              else insert (slot_start sl, slot_size sl, slot_mem sl) (slot_triples s))"
    (is "?L = ?R")
proof (rule set_eqI)
  fix t
  show "t \<in> ?L \<longleftrightarrow> t \<in> ?R"
  proof
    assume "t \<in> ?L"
    then obtain i where i: "i < num_slots s" "slot_size (((slots s)(f := sl)) i) \<noteq> 0"
      and t: "t = (slot_start (((slots s)(f := sl)) i), slot_size (((slots s)(f := sl)) i),
                   slot_mem (((slots s)(f := sl)) i))"
      by (auto simp: slot_triples_def)
    show "t \<in> ?R"
    proof (cases "i = f")
      case True
      then show ?thesis using i t by simp
    next
      case False
      then have "t \<in> slot_triples s" using i t by (auto simp: slot_triples_def)
      then show ?thesis by simp
    qed
  next
    assume r: "t \<in> ?R"
    show "t \<in> ?L"
    proof (cases "slot_size sl \<noteq> 0 \<and> t = (slot_start sl, slot_size sl, slot_mem sl)")
      case True
      then show ?thesis using f by (auto simp: slot_triples_def intro!: image_eqI[where x = f])
    next
      case False
      then have "t \<in> slot_triples s" using r by (auto split: if_splits)
      then obtain i where i: "i < num_slots s" "slot_size (slots s i) \<noteq> 0"
        and t: "t = (slot_start (slots s i), slot_size (slots s i), slot_mem (slots s i))"
        by (auto simp: slot_triples_def)
      have "i \<noteq> f" using i f by auto
      then show ?thesis using i t by (auto simp: slot_triples_def intro!: image_eqI[where x = i])
    qed
  qed
qed

lemma triples_cong:
  "slots s' = slots s \<Longrightarrow> num_slots s' = num_slots s \<Longrightarrow> slot_triples s' = slot_triples s"
  by (simp add: slot_triples_def)

lemma set_spec_unmap:
  "set (spec_apply (Unmap gpa sz) ms) = {t \<in> set ms. \<not> (fst t = gpa \<and> fst (snd t) = sz)}"
  by auto

lemma set_spec_map:
  "set (spec_apply (Map hva gpa sz fl) ms) =
     (if sz = 0 then set ms
      else insert (gpa, sz, hva) {t \<in> set ms. \<not> (fst t = gpa \<and> fst (snd t) = sz)})"
  by auto

lemma claim_tracks:
  assumes tr: "slot_table_inv s" "mirror_inv s"
    and ok: "sz \<noteq> 0 \<longrightarrow> range_ok gpa sz"
    and dj: "\<And>j. j < num_slots s \<Longrightarrow> slot_size (slots s j) \<noteq> 0 \<Longrightarrow>
               ranges_disjoint gpa sz (slot_start (slots s j)) (slot_size (slots s j))"
    and res: "hvf_map_safe_claim hv s hva gpa sz fl = Inr (r, s')"
  shows "slot_table_inv s' \<and> mirror_inv s'
         \<and> slot_triples s' = (if sz = 0 then slot_triples s else insert (gpa, sz, hva) (slot_triples s))"
proof -
  from res obtain f where f: "hvf_next_free_slot s = Some f" and fz: "slot_size (slots s f) = 0"
    and sm: "hvf_set_memory_with_flags_locked hv
                 (s\<lparr> slots := (slots s)(f := (slots s f)
                        \<lparr> slot_mem := hva, slot_start := gpa, slot_size := sz \<rparr>) \<rparr>) f fl = Inr (r, s')"
    by (auto simp: hvf_map_safe_claim_def split: option.splits if_splits)
  let ?sl = "(slots s f)\<lparr> slot_mem := hva, slot_start := gpa, slot_size := sz \<rparr>"
  have fn: "f < num_slots s" using f by (rule next_free_lt)
  have id: "slot_id ?sl = f" using tr(2) fn by (simp add: mirror_inv_def slot_ids_ok_def)
  have a: "slot_table_inv s'" using tr(1) ok dj res by (rule map_safe_claim_inv)
  have b: "mirror_inv s'" using tr(2) fn fz id sm by (rule commit_mirror_inv)
  have fr: "slots s' = slots (s\<lparr> slots := (slots s)(f := ?sl) \<rparr>)"
    "num_slots s' = num_slots (s\<lparr> slots := (slots s)(f := ?sl) \<rparr>)"
    using set_memory_frame[OF sm] by simp_all
  have c: "slot_triples s' = (if sz = 0 then slot_triples s else insert (gpa, sz, hva) (slot_triples s))"
    unfolding triples_cong[OF fr] triples_put[OF fn fz] by simp
  show ?thesis using a b c by simp
qed

lemma exact_triples:
  assumes inv: "slot_table_inv s" and m: "m < num_slots s" "slot_size (slots s m) \<noteq> 0"
  shows "{t \<in> slot_triples s. \<not> (fst t = slot_start (slots s m) \<and> fst (snd t) = slot_size (slots s m))}
           = slot_triples s - {(slot_start (slots s m), slot_size (slots s m), slot_mem (slots s m))}"
    (is "?L = ?R")
proof (rule set_eqI)
  fix t
  have u: "t = (slot_start (slots s m), slot_size (slots s m), slot_mem (slots s m))"
    if "t \<in> slot_triples s" "fst t = slot_start (slots s m)" "fst (snd t) = slot_size (slots s m)"
  proof -
    from that(1) obtain i where i: "i < num_slots s" "slot_size (slots s i) \<noteq> 0"
      and t: "t = (slot_start (slots s i), slot_size (slots s i), slot_mem (slots s i))"
      unfolding slot_triples_def by blast
    have e1: "slot_start (slots s i) = slot_start (slots s m)" using that(2) unfolding t by simp
    have e2: "slot_size (slots s i) = slot_size (slots s m)" using that(3) unfolding t by simp
    have "i = m" using inv i m e1 e2 by (rule triple_unique)
    then show ?thesis unfolding t by simp
  qed
  show "t \<in> ?L \<longleftrightarrow> t \<in> ?R"
  proof
    assume l: "t \<in> ?L"
    then have "t \<noteq> (slot_start (slots s m), slot_size (slots s m), slot_mem (slots s m))" by auto
    with l show "t \<in> ?R" by simp
  next
    assume r: "t \<in> ?R"
    then have "\<not> (fst t = slot_start (slots s m) \<and> fst (snd t) = slot_size (slots s m))"
      using u by blast
    with r show "t \<in> ?L" by simp
  qed
qed

lemma map_safe_tracks:
  assumes tr: "tracks s ms" and rq: "range_ok gpa sz"
    and res: "hvf_map_safe hv s hva gpa sz fl = Inr (r, s')"
  shows "tracks s' (spec_apply (Map hva gpa sz fl) ms)"
proof -
  have inv: "slot_table_inv s" and mi: "mirror_inv s" and ms: "set ms = slot_triples s"
    using tr by (simp_all add: tracks_def)
  show ?thesis
  proof (cases "hvf_find_overlap_slot s gpa (gpa + sz)")
    case None
    then have c: "hvf_map_safe_claim hv s hva gpa sz fl = Inr (r, s')"
      using res by (simp add: hvf_map_safe_def)
    have dj: "ranges_disjoint gpa sz (slot_start (slots s j)) (slot_size (slots s j))"
      if "j < num_slots s" "slot_size (slots s j) \<noteq> 0" for j
      using no_overlap_disjoint[OF inv rq None that] .
    have okr: "sz \<noteq> 0 \<longrightarrow> range_ok gpa sz" using rq by simp
    have k: "slot_table_inv s' \<and> mirror_inv s'
         \<and> slot_triples s' = (if sz = 0 then slot_triples s else insert (gpa, sz, hva) (slot_triples s))"
      using inv mi okr dj c by (rule claim_tracks)
    have none: "\<not> (fst t = gpa \<and> fst (snd t) = sz)" if t: "t \<in> slot_triples s" and z: "sz \<noteq> 0" for t
    proof
      assume e: "fst t = gpa \<and> fst (snd t) = sz"
      from t obtain i where i: "i < num_slots s" "slot_size (slots s i) \<noteq> 0"
        and ti: "t = (slot_start (slots s i), slot_size (slots s i), slot_mem (slots s i))"
        by (auto simp: slot_triples_def)
      have "ranges_disjoint gpa sz (slot_start (slots s i)) (slot_size (slots s i))"
        using dj i by simp
      moreover have "0 < unat sz" using z by (simp add: unat_gt_0)
      ultimately show False using e ti by (simp add: ranges_disjoint_def)
    qed
    have "set (spec_apply (Map hva gpa sz fl) ms) = slot_triples s'"
    proof (cases "sz = 0")
      case True
      then show ?thesis unfolding set_spec_map ms using k by simp
    next
      case False
      have "{t \<in> slot_triples s. \<not> (fst t = gpa \<and> fst (snd t) = sz)} = slot_triples s"
        using none False by blast
      then have "set (spec_apply (Map hva gpa sz fl) ms) = insert (gpa, sz, hva) (slot_triples s)"
        unfolding set_spec_map ms using False by (simp only: if_False)
      also have "\<dots> = slot_triples s'" using k False by (simp only: if_False)
      finally show ?thesis .
    qed
    then show ?thesis unfolding tracks_def using k by (simp only: simp_thms)
  next
    case (Some m)
    have mn: "m < num_slots s" and om: "slot_overlaps (slots s m) gpa (gpa + sz)"
      using Some by (simp_all add: find_overlap_Some_iff)
    have am: "slot_size (slots s m) \<noteq> 0" using om by (simp add: slot_overlaps_def)
    have ex: "slot_start (slots s m) = gpa" "slot_size (slots s m) = sz"
      using res Some by (auto simp: hvf_map_safe_def split: if_splits)
    have sz0: "sz \<noteq> 0" using am ex by simp
    note et = exact_triples[OF inv mn am, unfolded ex]
    show ?thesis
    proof (cases "slot_mem (slots s m) = hva")
      case True
      then have same: "s' = s" using res Some ex by (simp add: hvf_map_safe_def)
      have mem: "(gpa, sz, hva) \<in> slot_triples s"
        unfolding slot_triples_def
        by (rule image_eqI[where x = m]) (simp_all add: ex True mn sz0)
      have "set (spec_apply (Map hva gpa sz fl) ms)
              = insert (gpa, sz, hva) (slot_triples s - {(gpa, sz, slot_mem (slots s m))})"
        unfolding set_spec_map ms et using sz0 by (simp only: if_False)
      also have "\<dots> = slot_triples s" unfolding True using mem by blast
      finally have "set (spec_apply (Map hva gpa sz fl) ms) = slot_triples s" .
      then show ?thesis unfolding same tracks_def using inv mi by (simp only: simp_thms)
    next
      case False
      let ?s0 = "s\<lparr> slots := (slots s)(m := (slots s m)\<lparr> slot_size := 0 \<rparr>) \<rparr>"
      from res Some False ex obtain r1 s1 where
        rel: "hvf_set_memory_with_flags_locked hv ?s0 m 0 = Inr (r1, s1)"
        and c: "hvf_map_safe_claim hv s1 hva gpa sz fl = Inr (r, s')"
        by (auto simp: hvf_map_safe_def split: sum.splits)
      have fr: "slots s1 = slots ?s0" "num_slots s1 = num_slots ?s0"
        using set_memory_frame[OF rel] by simp_all
      have i1: "slot_table_inv s1" using inv_free[OF inv, of m] inv_cong[OF fr] by simp
      have m1: "mirror_inv s1" using mi mn am rel by (rule release_mirror_inv)
      have t1: "slot_triples s1 = {t \<in> slot_triples s. \<not> (fst t = gpa \<and> fst (snd t) = sz)}"
        unfolding triples_cong[OF fr] triples_free[OF inv mn am] ex ..
      have dj: "ranges_disjoint gpa sz (slot_start (slots s1 j)) (slot_size (slots s1 j))"
        if "j < num_slots s1" "slot_size (slots s1 j) \<noteq> 0" for j
      proof -
        have jm: "j \<noteq> m" using that fr by auto
        then have "slots s1 j = slots s j" using fr by simp
        moreover have "ranges_disjoint (slot_start (slots s m)) (slot_size (slots s m))
                         (slot_start (slots s j)) (slot_size (slots s j))"
          using inv mn am jm that fr by (simp add: slot_table_inv_def slots_disjoint_def)
        ultimately show ?thesis using ex by simp
      qed
      have okr: "sz \<noteq> 0 \<longrightarrow> range_ok gpa sz" using rq by simp
      have k: "slot_table_inv s' \<and> mirror_inv s'
         \<and> slot_triples s' = (if sz = 0 then slot_triples s1 else insert (gpa, sz, hva) (slot_triples s1))"
        using i1 m1 okr dj c by (rule claim_tracks)
      have "set (spec_apply (Map hva gpa sz fl) ms)
              = insert (gpa, sz, hva) {t \<in> slot_triples s. \<not> (fst t = gpa \<and> fst (snd t) = sz)}"
        unfolding set_spec_map ms using sz0 by (simp only: if_False)
      also have "\<dots> = slot_triples s'" using k sz0 unfolding t1 by (simp only: if_False)
      finally have "set (spec_apply (Map hva gpa sz fl) ms) = slot_triples s'" .
      then show ?thesis unfolding tracks_def using k by (simp only: simp_thms)
    qed
  qed
qed

lemma unmap_safe_tracks:
  assumes tr: "tracks s ms" and res: "hvf_unmap_safe hv s gpa sz = Inr (r, s')"
  shows "tracks s' (spec_apply (Unmap gpa sz) ms)"
proof -
  have inv: "slot_table_inv s" and mi: "mirror_inv s" and ms: "set ms = slot_triples s"
    using tr by (simp_all add: tracks_def)
  show ?thesis
  proof (cases "hvf_find_overlap_slot s gpa (gpa + sz)")
    case None
    then have same: "s' = s" using res by (simp add: hvf_unmap_safe_def)
    have none: "\<not> (fst t = gpa \<and> fst (snd t) = sz)" if t: "t \<in> slot_triples s" for t
    proof
      assume e: "fst t = gpa \<and> fst (snd t) = sz"
      from t obtain i where i: "i < num_slots s" "slot_size (slots s i) \<noteq> 0"
        and ti: "t = (slot_start (slots s i), slot_size (slots s i), slot_mem (slots s i))"
        by (auto simp: slot_triples_def)
      have "hvf_find_overlap_slot s (slot_start (slots s i))
              (slot_start (slots s i) + slot_size (slots s i)) = Some i"
        using inv i by (intro find_overlap_self) (simp_all add: slot_table_inv_def)
      then show False using None e ti by simp
    qed
    then have "{t \<in> slot_triples s. \<not> (fst t = gpa \<and> fst (snd t) = sz)} = slot_triples s"
      by blast
    then have "set (spec_apply (Unmap gpa sz) ms) = slot_triples s"
      unfolding set_spec_unmap ms .
    then show ?thesis unfolding same tracks_def using inv mi by (simp only: simp_thms)
  next
    case (Some m)
    have mn: "m < num_slots s" and om: "slot_overlaps (slots s m) gpa (gpa + sz)"
      using Some by (simp_all add: find_overlap_Some_iff)
    have am: "slot_size (slots s m) \<noteq> 0" using om by (simp add: slot_overlaps_def)
    have ex: "slot_start (slots s m) = gpa" "slot_size (slots s m) = sz"
      using res Some by (auto simp: hvf_unmap_safe_def split: if_splits)
    let ?s0 = "s\<lparr> slots := (slots s)(m := (slots s m)\<lparr> slot_size := 0 \<rparr>) \<rparr>"
    have rel: "hvf_set_memory_with_flags_locked hv ?s0 m 0 = Inr (r, s')"
      using res Some ex by (simp add: hvf_unmap_safe_def)
    have fr: "slots s' = slots ?s0" "num_slots s' = num_slots ?s0"
      using set_memory_frame[OF rel] by simp_all
    have i1: "slot_table_inv s'" using inv_free[OF inv, of m] inv_cong[OF fr] by simp
    have m1: "mirror_inv s'" using mi mn am rel by (rule release_mirror_inv)
    have t1: "slot_triples s' = {t \<in> slot_triples s. \<not> (fst t = gpa \<and> fst (snd t) = sz)}"
      unfolding triples_cong[OF fr] triples_free[OF inv mn am] ex ..
    have "set (spec_apply (Unmap gpa sz) ms) = slot_triples s'"
      unfolding set_spec_unmap ms t1 ..
    then show ?thesis unfolding tracks_def using i1 m1 by (simp only: simp_thms)
  qed
qed


lemma apply_op_tracks:
  assumes "tracks s ms" "is_map_or_unmap op" "op_admissible s op" "apply_op hv s op = Inr s'"
  shows "tracks s' (spec_apply op ms)"
proof (cases op)
  case (Map hva gpa sz fl)
  then obtain r where "hvf_map_safe hv s hva gpa sz fl = Inr (r, s')"
    using assms(4) by (cases "hvf_map_safe hv s hva gpa sz fl") auto
  then show ?thesis using assms(1,3) Map map_safe_tracks by simp
next
  case (Unmap gpa sz)
  then obtain r where "hvf_unmap_safe hv s gpa sz = Inr (r, s')"
    using assms(4) by (cases "hvf_unmap_safe hv s gpa sz") auto
  then show ?thesis using assms(1) Unmap unmap_safe_tracks by simp
next
  case (RegionAdd sec)
  then show ?thesis using assms(2) by simp
next
  case (RegionDel sec)
  then show ?thesis using assms(2) by simp
qed

lemma run_ops_tracks:
  "tracks s ms \<Longrightarrow> list_all is_map_or_unmap ops \<Longrightarrow> ops_admissible hv s ops
   \<Longrightarrow> run_ops hv s ops = Inr s' \<Longrightarrow> tracks s' (fold spec_apply ops ms)"
proof (induction ops arbitrary: s ms)
  case Nil
  then show ?case by simp
next
  case (Cons op ops)
  from Cons.prems(4) obtain s1 where a: "apply_op hv s op = Inr s1" and r: "run_ops hv s1 ops = Inr s'"
    by (auto split: sum.splits)
  have t1: "tracks s1 (spec_apply op ms)"
    using Cons.prems(1,2,3) a by (intro apply_op_tracks[where s = s]) simp_all
  have "ops_admissible hv s1 ops" using Cons.prems(3) a by simp
  moreover have "list_all is_map_or_unmap ops" using Cons.prems(2) by simp
  ultimately have "tracks s' (fold spec_apply ops (spec_apply op ms))"
    using Cons.IH[OF t1] r by blast
  then show ?case by simp
qed

lemma init_tracks: "tracks hvf_accel_init []"
proof -
  have "mirror_inv hvf_accel_init"
    by (simp add: mirror_inv_def slot_ids_ok_def mirror_ok_def hvf_accel_init_def)
  moreover have "set [] = slot_triples hvf_accel_init"
    by (simp add: slot_triples_def hvf_accel_init_def)
  ultimately show ?thesis unfolding tracks_def using init_inv by (intro conjI)
qed

text \<open>the mirror lookup against the tracked mappings\<close>
lemma gpa2hva_tracks:
  assumes tr: "tracks s ms"
  shows "hvf_gpa2hva s x = spec_gpa_to_hva ms x"
proof -
  have inv: "slot_table_inv s" and mi: "mirror_inv s" and ms: "set ms = slot_triples s"
    using tr by (simp_all add: tracks_def)
  have n: "num_slots s = HVF_MAX_SLOTS" using mi by (simp add: mirror_inv_def)
  let ?P = "\<lambda>i. mac_present (mac_slots s i) \<and> x \<ge> mac_gpa_start (mac_slots s i)
                   \<and> x < mac_gpa_start (mac_slots s i) + mac_size (mac_slots s i)"
  let ?Q = "\<lambda>(g, z, h). unat g \<le> unat x \<and> unat x < unat g + unat (z::u64)"
  have covers: "?P i \<longleftrightarrow> slot_size (slots s i) \<noteq> 0
                  \<and> unat (slot_start (slots s i)) \<le> unat x
                  \<and> unat x < unat (slot_start (slots s i)) + unat (slot_size (slots s i))"
    if i: "i < HVF_MAX_SLOTS" for i
  proof (cases "slot_size (slots s i) = 0")
    case True
    then have "\<not> mac_present (mac_slots s i)"
      using mi i n by (auto simp: mirror_inv_def mirror_ok_def)
    then show ?thesis using True by simp
  next
    case False
    have m: "mac_present (mac_slots s i)" "mac_size (mac_slots s i) = slot_size (slots s i)"
      "mac_gpa_start (mac_slots s i) = slot_start (slots s i)"
      using mi i n False by (auto simp: mirror_inv_def mirror_ok_def)
    have "range_ok (slot_start (slots s i)) (slot_size (slots s i))"
      using inv i n False by (simp add: slot_table_inv_def slots_in_range_def)
    then have e: "unat (slot_start (slots s i) + slot_size (slots s i))
                 = unat (slot_start (slots s i)) + unat (slot_size (slots s i))"
      by (simp add: range_ok_def unat_add_nowrap)
    show ?thesis using False m e by (simp add: word_le_nat_alt word_less_nat_alt)
  qed
  have hva: "mac_hva (mac_slots s i) = slot_mem (slots s i)"
       "mac_gpa_start (mac_slots s i) = slot_start (slots s i)"
    if "i < HVF_MAX_SLOTS" "slot_size (slots s i) \<noteq> 0" for i
    using mi that n by (auto simp: mirror_inv_def mirror_ok_def)
  show ?thesis
  proof (cases "List.find ?P [0..<HVF_MAX_SLOTS]")
    case None
    have nq: "\<not> ?Q t" if t: "t \<in> set ms" for t
    proof -
      from t ms obtain i where i: "i < num_slots s" "slot_size (slots s i) \<noteq> 0"
        and ti: "t = (slot_start (slots s i), slot_size (slots s i), slot_mem (slots s i))"
        unfolding slot_triples_def by blast
      have "\<not> ?P i" using None i n by (simp add: find_None_iff)
      then show ?thesis using covers[of i] i n ti by simp
    qed
    have "\<not> (\<exists>t. t \<in> set ms \<and> ?Q t)"
    proof
      assume "\<exists>t. t \<in> set ms \<and> ?Q t"
      then obtain t where tm: "t \<in> set ms" and q: "?Q t" by (elim exE conjE)
      from tm have "\<not> ?Q t" by (rule nq)
      then show False using q by (rule notE)
    qed
    then have "List.find ?Q ms = None" unfolding find_None_iff .
    then show ?thesis using None by (simp add: hvf_gpa2hva_def spec_gpa_to_hva_def)
  next
    case (Some i)
    have i: "i < HVF_MAX_SLOTS" and pi: "?P i"
      using Some by (auto simp: find_Some_iff)
    have ci: "slot_size (slots s i) \<noteq> 0" "unat (slot_start (slots s i)) \<le> unat x"
      "unat x < unat (slot_start (slots s i)) + unat (slot_size (slots s i))"
      using covers[OF i] pi by simp_all
    have res: "hvf_gpa2hva s x = Some (slot_mem (slots s i) + (x - slot_start (slots s i)))"
      using Some hva[OF i ci(1)] by (simp add: hvf_gpa2hva_def)
    have in': "i < num_slots s" using i n by simp
    have tin: "(slot_start (slots s i), slot_size (slots s i), slot_mem (slots s i)) \<in> set ms"
      unfolding ms slot_triples_def by (rule image_eqI[where x = i]) (simp_all add: in' ci(1))
    have "?Q (slot_start (slots s i), slot_size (slots s i), slot_mem (slots s i))"
      using ci by simp
    with tin have ex: "\<exists>t. t \<in> set ms \<and> ?Q t" by (intro exI conjI)
    have "List.find ?Q ms \<noteq> None"
    proof
      assume "List.find ?Q ms = None"
      then have "\<not> (\<exists>t. t \<in> set ms \<and> ?Q t)" unfolding find_None_iff .
      then show False using ex by (rule notE)
    qed
    then obtain t where ft: "List.find ?Q ms = Some t" by (cases "List.find ?Q ms") simp_all
    from ft obtain k where k: "k < length ms" "?Q (ms ! k)" "t = ms ! k"
      unfolding find_Some_iff by (elim exE conjE)
    have tq: "?Q t" using k(2) unfolding k(3) .
    have tm: "t \<in> set ms" unfolding k(3) using k(1) by (rule nth_mem)
    from tm ms obtain j where j: "j < num_slots s" "slot_size (slots s j) \<noteq> 0"
      and tj: "t = (slot_start (slots s j), slot_size (slots s j), slot_mem (slots s j))"
      unfolding slot_triples_def by blast
    have cj: "unat (slot_start (slots s j)) \<le> unat x"
      "unat x < unat (slot_start (slots s j)) + unat (slot_size (slots s j))"
      using tq tj by simp_all
    have "j = i"
    proof (rule ccontr)
      assume "j \<noteq> i"
      then have "ranges_disjoint (slot_start (slots s j)) (slot_size (slots s j))
                   (slot_start (slots s i)) (slot_size (slots s i))"
        using inv j i n ci(1) by (simp add: slot_table_inv_def slots_disjoint_def)
      then show False using ci cj by (simp add: ranges_disjoint_def)
    qed
    then have "spec_gpa_to_hva ms x = Some (slot_mem (slots s i) + (x - slot_start (slots s i)))"
      using ft tj by (simp add: spec_gpa_to_hva_def)
    with res show ?thesis by simp
  qed
qed

text \<open>
  Claim C8, as amended. After any sequence of \<open>hvf_map_safe\<close> and \<open>hvf_unmap_safe\<close>
  calls that starts from the initial slot table, whose mapped ranges end below \<open>2^64\<close>
  and which runs to its end without a fatal error (a partially overlapping range is
  fatal), \<open>hvf_gpa2hva\<close> returns for every guest-physical address \<open>x\<close> the host pointer
  of the mapping covering \<open>x\<close> plus the offset of \<open>x\<close> within that mapping, and returns
  nothing when no mapping covers \<open>x\<close>.
\<close>

theorem gpa2hva_after_map_unmap:
  assumes "list_all is_map_or_unmap ops" and "ops_admissible hv hvf_accel_init ops"
    and "run_ops hv hvf_accel_init ops = Inr s"
  shows "hvf_gpa2hva s x = spec_gpa_to_hva (spec_mappings ops) x"
  unfolding spec_mappings_def
  using run_ops_tracks[OF init_tracks assms] by (rule gpa2hva_tracks)

text \<open>
  An instance: the run that ends with the mappings \<open>[0x3000, 0x3800)\<close> and
  \<open>[0x5000, 0x6000)\<close>; an address in the second mapping and an address in the range that
  was unmapped.
\<close>

lemma run_ops_two_live: "run_ops hv_always_ok hvf_accel_init ops_two_live = Inr mem_two_live"
  by (simp add: eval_defs ops_two_live_def mem_two_live_def fun_upd_twist)

lemma ops_two_live_admissible: "ops_admissible hv_always_ok hvf_accel_init ops_two_live"
  by (simp add: eval_defs ops_two_live_def range_ok_def)

lemma spec_mappings_two_live:
  "spec_mappings ops_two_live = [(0x3000, 0x800, 0x20000), (0x5000, 0x1000, 0x11000)]"
  by (simp add: spec_mappings_def ops_two_live_def)

theorem gpa2hva_after_map_unmap_witness:
  "list_all is_map_or_unmap ops_two_live
   \<and> ops_admissible hv_always_ok hvf_accel_init ops_two_live
   \<and> run_ops hv_always_ok hvf_accel_init ops_two_live = Inr mem_two_live
   \<and> spec_mappings ops_two_live = [(0x3000, 0x800, 0x20000), (0x5000, 0x1000, 0x11000)]
   \<and> hvf_gpa2hva mem_two_live 0x5234 = Some 0x11234
   \<and> hvf_gpa2hva mem_two_live 0x1234 = None"
proof -
  have l: "list_all is_map_or_unmap ops_two_live" by (simp add: ops_two_live_def)
  have sp: "spec_gpa_to_hva (spec_mappings ops_two_live) 0x5234 = Some 0x11234"
    "spec_gpa_to_hva (spec_mappings ops_two_live) 0x1234 = None"
    unfolding spec_mappings_two_live by (simp_all add: spec_gpa_to_hva_def)
  show ?thesis
    using gpa2hva_after_map_unmap[OF l ops_two_live_admissible run_ops_two_live, of "0x5234"]
      gpa2hva_after_map_unmap[OF l ops_two_live_admissible run_ops_two_live, of "0x1234"]
      l ops_two_live_admissible run_ops_two_live sp spec_mappings_two_live
    by simp
qed

text \<open>
  The claim as stated fails for a mapping that ends at \<open>2^64\<close>: \<open>hvf_gpa2hva\<close> tests
  \<open>gpa < gpa_start + size\<close> in 64-bit arithmetic, where the end of the last page is 0, so
  no address of the mapped last page is found.
\<close>

lemma gpa2hva_last_page: "hvf_gpa2hva mem_last_page 0xFFFFFFFFFFFFF800 = None"
proof -
  have "List.find (\<lambda>i. mac_present (mac_slots mem_last_page i)
            \<and> 0xFFFFFFFFFFFFF800 \<ge> mac_gpa_start (mac_slots mem_last_page i)
            \<and> 0xFFFFFFFFFFFFF800 < mac_gpa_start (mac_slots mem_last_page i)
                                     + mac_size (mac_slots mem_last_page i))
          [0..<HVF_MAX_SLOTS] = None"
    unfolding find_None_iff by (simp add: mem_last_page_def hvf_accel_init_def)
  then show ?thesis by (simp add: hvf_gpa2hva_def)
qed

theorem gpa2hva_last_page_counterexample:
  "run_ops hv_always_ok hvf_accel_init [Map 0x10000 0xFFFFFFFFFFFFF000 0x1000 3] = Inr mem_last_page
   \<and> spec_gpa_to_hva (spec_mappings [Map 0x10000 0xFFFFFFFFFFFFF000 0x1000 3]) 0xFFFFFFFFFFFFF800
       = Some 0x10800
   \<and> hvf_gpa2hva mem_last_page 0xFFFFFFFFFFFFF800 = None"
  unfolding run_last_page gpa2hva_last_page
  by (simp add: spec_mappings_def spec_gpa_to_hva_def)

end
